theory Spec2Isabelle
  imports Main
begin

section \<open>Cells, changes and events seen by the layout manager\<close>

text \<open>
  \<^verbatim>\<open>mxLayoutManager.ts\<close> imports \<^verbatim>\<open>mxCell\<close>, the atomic change classes and
  \<^verbatim>\<open>mxEvent\<close>; only the members the layout manager reads are represented. A cell
  is an object identity; \<^verbatim>\<open>mxCell | null\<close> is \<open>mxCell option\<close>. The accessors
  \<^verbatim>\<open>getParent\<close>, \<^verbatim>\<open>getChildCount\<close> and \<^verbatim>\<open>getChildAt\<close> read the cell hierarchy,
  which is passed explicitly; \<open>getChildren h c\<close> lists \<^verbatim>\<open>c.getChildAt(0)\<close> up to
  \<^verbatim>\<open>c.getChildAt(c.getChildCount() - 1)\<close>.
\<close>

type_synonym mxCell = nat

record cellHierarchy =
  getParent :: "mxCell \<Rightarrow> mxCell option"
  getChildren :: "mxCell \<Rightarrow> mxCell list"

text \<open>
  The classes tested with \<^verbatim>\<open>instanceof\<close> in \<^verbatim>\<open>getCellsForChanges\<close> and
  \<^verbatim>\<open>getCellsForChange\<close>, with the fields read there (\<^verbatim>\<open>change.child\<close>,
  \<^verbatim>\<open>change.previous\<close>, \<^verbatim>\<open>change.cell\<close>). \<open>otherChange\<close> is any object that is an
  instance of none of them.
\<close>

datatype mxChange =
    mxRootChange
  | mxChildChange "mxCell option" "mxCell option"
  | mxTerminalChange "mxCell option"
  | mxGeometryChange "mxCell option"
  | mxVisibleChange "mxCell option"
  | mxStyleChange "mxCell option"
  | otherChange

datatype mxEvent =
    LAYOUT_CELLS | BEGIN_UPDATE | END_UPDATE | MOVE_CELLS | RESIZE_CELLS | BEFORE_UNDO

section \<open>mxLayoutManager: choosing the cells to lay out\<close>

text \<open>
  The fields \<^verbatim>\<open>bubbling\<close> and \<^verbatim>\<open>enabled\<close>, and the hook \<^verbatim>\<open>getLayout(cell, eventName)\<close>
  that users override (the implementation in the class returns \<^verbatim>\<open>null\<close>).
\<close>

record 'l mxLayoutManager =
  bubbling :: bool
  enabled :: bool
  getLayout :: "mxCell option \<Rightarrow> mxEvent \<Rightarrow> 'l option"

definition isEnabled :: "'l mxLayoutManager \<Rightarrow> bool" where
  "isEnabled lm = enabled lm"

definition isBubbling :: "'l mxLayoutManager \<Rightarrow> bool" where
  "isBubbling lm = bubbling lm"

text \<open>\<^verbatim>\<open>return !!this.getLayout(cell, mxEvent.LAYOUT_CELLS)\<close>: a layout object is truthy,
  \<^verbatim>\<open>null\<close> is falsy.\<close>

definition hasLayout :: "'l mxLayoutManager \<Rightarrow> mxCell option \<Rightarrow> bool" where
  "hasLayout lm cell = (getLayout lm cell LAYOUT_CELLS \<noteq> None)"

text \<open>\<^verbatim>\<open>layout != null\<close> for a \<^verbatim>\<open>layout\<close> of type \<^verbatim>\<open>boolean\<close>: neither \<^verbatim>\<open>true\<close> nor
  \<^verbatim>\<open>false\<close> is loosely equal to \<^verbatim>\<open>null\<close>.\<close>

definition booleanNotNull :: "bool \<Rightarrow> bool" where
  "booleanNotNull b = True"

text \<open>
  \<^verbatim>\<open>addAncestorsWithLayout\<close> and \<^verbatim>\<open>addDescendantsWithLayout\<close> recurse along the
  hierarchy. The first argument bounds the depth of the call stack: a call that would
  need a deeper stack returns \<open>None\<close>, as does one that would never return on a cyclic
  hierarchy. \<^verbatim>\<open>result.push(cell)\<close> appends in place; the array is returned.
\<close>

fun addAncestorsWithLayout ::
  "nat \<Rightarrow> 'l mxLayoutManager \<Rightarrow> cellHierarchy \<Rightarrow> mxCell option \<Rightarrow> mxCell list
     \<Rightarrow> mxCell list option" where
  "addAncestorsWithLayout 0 lm h cell result = None"
| "addAncestorsWithLayout (Suc n) lm h None result = Some result"
| "addAncestorsWithLayout (Suc n) lm h (Some c) result =
     (let layout = hasLayout lm (Some c);
          result1 = (if booleanNotNull layout then result @ [c] else result)
      in if isBubbling lm
         then (case addAncestorsWithLayout n lm h (getParent h c) result1 of
                 None \<Rightarrow> None
               | Some result2 \<Rightarrow> Some result2)
         else Some result1)"

fun addDescendantsWithLayout ::
  "nat \<Rightarrow> 'l mxLayoutManager \<Rightarrow> cellHierarchy \<Rightarrow> mxCell option \<Rightarrow> mxCell list
     \<Rightarrow> mxCell list option"
and addDescendantsChildren ::
  "nat \<Rightarrow> 'l mxLayoutManager \<Rightarrow> cellHierarchy \<Rightarrow> mxCell list \<Rightarrow> mxCell list
     \<Rightarrow> mxCell list option" where
  "addDescendantsWithLayout 0 lm h cell result = None"
| "addDescendantsWithLayout (Suc n) lm h None result = Some result"
| "addDescendantsWithLayout (Suc n) lm h (Some c) result =
     (if hasLayout lm (Some c)
      then addDescendantsChildren n lm h (getChildren h c) result
      else Some result)"
| "addDescendantsChildren n lm h [] result = Some result"
| "addDescendantsChildren n lm h (child # rest) result =
     (if hasLayout lm (Some child)
      then (case addDescendantsWithLayout n lm h (Some child) (result @ [child]) of
              None \<Rightarrow> None
            | Some result1 \<Rightarrow> addDescendantsChildren n lm h rest result1)
      else addDescendantsChildren n lm h rest result)"

definition addCellsWithLayout ::
  "nat \<Rightarrow> 'l mxLayoutManager \<Rightarrow> cellHierarchy \<Rightarrow> mxCell option \<Rightarrow> mxCell list
     \<Rightarrow> mxCell list option" where
  "addCellsWithLayout n lm h cell result =
     (case addAncestorsWithLayout n lm h cell result of
        None \<Rightarrow> None
      | Some result1 \<Rightarrow> addDescendantsWithLayout n lm h cell result1)"

fun getCellsForChange ::
  "nat \<Rightarrow> 'l mxLayoutManager \<Rightarrow> cellHierarchy \<Rightarrow> mxChange \<Rightarrow> mxCell list option" where
  "getCellsForChange n lm h (mxChildChange child previous) =
     (case addCellsWithLayout n lm h previous [] of
        None \<Rightarrow> None
      | Some result \<Rightarrow> addCellsWithLayout n lm h child result)"
| "getCellsForChange n lm h (mxTerminalChange cell) = addCellsWithLayout n lm h cell []"
| "getCellsForChange n lm h (mxGeometryChange cell) = addCellsWithLayout n lm h cell []"
| "getCellsForChange n lm h (mxVisibleChange cell) = addCellsWithLayout n lm h cell []"
| "getCellsForChange n lm h (mxStyleChange cell) = addCellsWithLayout n lm h cell []"
| "getCellsForChange n lm h mxRootChange = Some []"
| "getCellsForChange n lm h otherChange = Some []"

text \<open>The loop of \<^verbatim>\<open>getCellsForChanges\<close>, with \<^verbatim>\<open>result\<close> as the accumulator.\<close>

fun getCellsForChangesFrom ::
  "nat \<Rightarrow> 'l mxLayoutManager \<Rightarrow> cellHierarchy \<Rightarrow> mxChange list \<Rightarrow> mxCell list
     \<Rightarrow> mxCell list option" where
  "getCellsForChangesFrom n lm h [] result = Some result"
| "getCellsForChangesFrom n lm h (change # changes) result =
     (if change = mxRootChange then Some []
      else (case getCellsForChange n lm h change of
              None \<Rightarrow> None
            | Some cells \<Rightarrow> getCellsForChangesFrom n lm h changes (result @ cells)))"

definition getCellsForChanges ::
  "nat \<Rightarrow> 'l mxLayoutManager \<Rightarrow> cellHierarchy \<Rightarrow> mxChange list \<Rightarrow> mxCell list option" where
  "getCellsForChanges n lm h changes = getCellsForChangesFrom n lm h changes []"

section \<open>mxLayoutManager: running the layouts\<close>

text \<open>
  A thrown JavaScript exception is a value; a call either returns normally with the new
  state, or throws with the state reached at the throw.
\<close>

type_synonym jsError = string

datatype 's outcome = Normal 's | Throws jsError 's

fun stateOf :: "'s outcome \<Rightarrow> 's" where
  "stateOf (Normal s) = s"
| "stateOf (Throws e s) = s"


text \<open>
  The calls that \<^verbatim>\<open>layoutCells\<close> and \<^verbatim>\<open>executeLayout\<close> make on other objects:
  \<^verbatim>\<open>model.beginUpdate()\<close>, \<^verbatim>\<open>model.endUpdate()\<close>, \<^verbatim>\<open>layout.execute(cell)\<close> and
  \<^verbatim>\<open>this.fireEvent(new mxEventObject(mxEvent.LAYOUT_CELLS, 'cells', cells))\<close>.
\<close>

datatype mxCall =
    BeginUpdateCall
  | EndUpdateCall
  | LayoutExecuteCall mxCell
  | FireEventCall mxEvent "mxCell list"

text \<open>
  The state threaded through the layout manager: \<open>world\<close> is everything the called
  objects own (graph model, layouts, listeners), \<open>calls\<close> is the sequence of calls the
  layout manager itself has made so far.
\<close>

record 'w lmState =
  world :: 'w
  calls :: "mxCall list"

text \<open>
  The objects the layout manager calls are not in \<^verbatim>\<open>mxLayoutManager.ts\<close>; their
  methods are parameters. \<^verbatim>\<open>beginUpdate\<close> never fails (spec 4.1); every other call
  may throw. \<^verbatim>\<open>sortCells\<close> is \<^verbatim>\<open>mxUtils.sortCells(cells, ascending)\<close>.
\<close>

record ('w, 'l) environment =
  modelBeginUpdate :: "'w \<Rightarrow> 'w"
  modelEndUpdate :: "'w \<Rightarrow> 'w outcome"
  modelGetRoot :: "'w \<Rightarrow> mxCell option"
  layoutExecute :: "'l \<Rightarrow> mxCell \<Rightarrow> 'w \<Rightarrow> 'w outcome"
  dispatchEvent :: "mxEvent \<Rightarrow> mxCell list \<Rightarrow> 'w \<Rightarrow> 'w outcome"
  sortCells :: "mxCell list \<Rightarrow> bool \<Rightarrow> mxCell list"
  hierarchyOf :: "'w \<Rightarrow> cellHierarchy"

definition called :: "mxCall \<Rightarrow> 'w lmState \<Rightarrow> 'w \<Rightarrow> 'w lmState" where
  "called c st w = \<lparr>world = w, calls = calls st @ [c]\<rparr>"

fun calledOutcome :: "mxCall \<Rightarrow> 'w lmState \<Rightarrow> 'w outcome \<Rightarrow> 'w lmState outcome" where
  "calledOutcome c st (Normal w) = Normal (called c st w)"
| "calledOutcome c st (Throws e w) = Throws e (called c st w)"

definition executeLayout ::
  "('w, 'l) environment \<Rightarrow> 'l mxLayoutManager \<Rightarrow> mxCell \<Rightarrow> bool \<Rightarrow> 'w lmState
     \<Rightarrow> 'w lmState outcome" where
  "executeLayout env lm cell bubble st =
     (case getLayout lm (Some cell) (if bubble then BEGIN_UPDATE else END_UPDATE) of
        None \<Rightarrow> Normal st
      | Some layout \<Rightarrow>
          calledOutcome (LayoutExecuteCall cell) st (layoutExecute env layout cell (world st)))"

text \<open>The \<^verbatim>\<open>for (const cell of cells)\<close> loop of \<^verbatim>\<open>layoutCells\<close>; \<^verbatim>\<open>last\<close> starts as
  \<^verbatim>\<open>null\<close>, and \<^verbatim>\<open>model.getRoot()\<close> is read in every iteration.\<close>

fun layoutLoop ::
  "('w, 'l) environment \<Rightarrow> 'l mxLayoutManager \<Rightarrow> bool \<Rightarrow> mxCell list \<Rightarrow> mxCell option
     \<Rightarrow> 'w lmState \<Rightarrow> 'w lmState outcome" where
  "layoutLoop env lm bubble [] lastCell st = Normal st"
| "layoutLoop env lm bubble (cell # cells) lastCell st =
     (if Some cell \<noteq> modelGetRoot env (world st) \<and> Some cell \<noteq> lastCell
      then (case executeLayout env lm cell bubble st of
              Throws e st1 \<Rightarrow> Throws e st1
            | Normal st1 \<Rightarrow> layoutLoop env lm bubble cells (Some cell) st1)
      else layoutLoop env lm bubble cells lastCell st)"

text \<open>The body of the \<^verbatim>\<open>try\<close> block: the loop, then the \<^verbatim>\<open>LAYOUT_CELLS\<close> event.\<close>

definition layoutCellsTry ::
  "('w, 'l) environment \<Rightarrow> 'l mxLayoutManager \<Rightarrow> mxCell list \<Rightarrow> bool \<Rightarrow> 'w lmState
     \<Rightarrow> 'w lmState outcome" where
  "layoutCellsTry env lm cells bubble st =
     (case layoutLoop env lm bubble cells None st of
        Throws e st1 \<Rightarrow> Throws e st1
      | Normal st1 \<Rightarrow>
          calledOutcome (FireEventCall LAYOUT_CELLS cells) st1
            (dispatchEvent env LAYOUT_CELLS cells (world st1)))"

text \<open>The \<^verbatim>\<open>finally\<close> block: \<^verbatim>\<open>model.endUpdate()\<close> runs after the body however it
  ended; an exception of \<^verbatim>\<open>endUpdate\<close> replaces the pending one.\<close>

fun layoutCellsFinally ::
  "('w, 'l) environment \<Rightarrow> 'w lmState outcome \<Rightarrow> 'w lmState outcome" where
  "layoutCellsFinally env (Normal st) =
     calledOutcome EndUpdateCall st (modelEndUpdate env (world st))"
| "layoutCellsFinally env (Throws e st) =
     (case calledOutcome EndUpdateCall st (modelEndUpdate env (world st)) of
        Normal st1 \<Rightarrow> Throws e st1
      | Throws e1 st1 \<Rightarrow> Throws e1 st1)"

definition layoutCells ::
  "('w, 'l) environment \<Rightarrow> 'l mxLayoutManager \<Rightarrow> mxCell list \<Rightarrow> bool \<Rightarrow> 'w lmState
     \<Rightarrow> 'w lmState outcome" where
  "layoutCells env lm cells bubble st =
     (if length cells > 0
      then layoutCellsFinally env
             (layoutCellsTry env lm cells bubble
                (called BeginUpdateCall st (modelBeginUpdate env (world st))))
      else Normal st)"

text \<open>\<^verbatim>\<open>sorted.reverse()\<close> reverses in place; the second pass is not reached when the
  first throws.\<close>

definition executeLayoutForCells ::
  "('w, 'l) environment \<Rightarrow> 'l mxLayoutManager \<Rightarrow> mxCell list \<Rightarrow> 'w lmState
     \<Rightarrow> 'w lmState outcome" where
  "executeLayoutForCells env lm cells st =
     (let sorted = sortCells env cells False
      in case layoutCells env lm sorted True st of
           Throws e st1 \<Rightarrow> Throws e st1
         | Normal st1 \<Rightarrow> layoutCells env lm (rev sorted) False st1)"

text \<open>\<^verbatim>\<open>beforeUndo(undoableEdit)\<close> reads \<^verbatim>\<open>undoableEdit.changes\<close>. A call stack deeper
  than \<open>n\<close> is the engine's \<^verbatim>\<open>RangeError\<close>.\<close>

definition beforeUndo ::
  "nat \<Rightarrow> ('w, 'l) environment \<Rightarrow> 'l mxLayoutManager \<Rightarrow> mxChange list \<Rightarrow> 'w lmState
     \<Rightarrow> 'w lmState outcome" where
  "beforeUndo n env lm changes st =
     (case getCellsForChanges n lm (hierarchyOf env (world st)) changes of
        None \<Rightarrow> Throws ''RangeError'' st
      | Some cells \<Rightarrow> executeLayoutForCells env lm cells st)"

text \<open>The \<^verbatim>\<open>undoHandler\<close> that \<^verbatim>\<open>setGraph\<close> registers for \<^verbatim>\<open>mxEvent.BEFORE_UNDO\<close> on the
  model; \<open>changes\<close> is \<^verbatim>\<open>evt.getProperty('edit').changes\<close>.\<close>

definition undoHandler ::
  "nat \<Rightarrow> ('w, 'l) environment \<Rightarrow> 'l mxLayoutManager \<Rightarrow> mxChange list \<Rightarrow> 'w lmState
     \<Rightarrow> 'w lmState outcome" where
  "undoHandler n env lm changes st =
     (if isEnabled lm then beforeUndo n env lm changes st else Normal st)"

section \<open>StyleChange\<close>

text \<open>
  \<^verbatim>\<open>StyleChange.ts\<close>. A \<^verbatim>\<open>Cell\<close> is an object identity and a \<^verbatim>\<open>CellStyle\<close> an ordered
  mapping of property names to values. The \<^verbatim>\<open>GraphDataModel\<close> is the state the change
  acts on; the \<^verbatim>\<open>model\<close> field of the change is a reference to it and is represented
  by passing the model to \<open>execute\<close>.
\<close>

type_synonym Cell = nat

type_synonym CellStyle = "(string \<times> string) list"

record GraphDataModel =
  cellStyle :: "Cell \<Rightarrow> CellStyle"

record StyleChange =
  cell :: Cell
  style :: CellStyle
  previous :: CellStyle

text \<open>The constructor assigns the fields and reads neither the cell nor the model.\<close>

definition newStyleChange ::
  "GraphDataModel \<Rightarrow> Cell \<Rightarrow> CellStyle \<Rightarrow> StyleChange \<times> GraphDataModel" where
  "newStyleChange model c s = (\<lparr>cell = c, style = s, previous = s\<rparr>, model)"

text \<open>
  Modelled from the spec: \<^verbatim>\<open>GraphDataModel.styleForCellChanged(cell, style)\<close> is not in
  the sources. Section 3 of the spec has \<^verbatim>\<open>execute()\<close> perform the mutation and flip the
  stored previous and new values, and the comment of \<^verbatim>\<open>StyleChange.execute\<close> says it
  changes the style of the cell to \<^verbatim>\<open>previous\<close> through this method: it sets the style of
  the cell and returns the style the cell had before.
\<close>

definition styleForCellChanged ::
  "GraphDataModel \<Rightarrow> Cell \<Rightarrow> CellStyle \<Rightarrow> CellStyle \<times> GraphDataModel" where
  "styleForCellChanged model c s =
     (cellStyle model c, model\<lparr>cellStyle := (cellStyle model)(c := s)\<rparr>)"

definition execute :: "StyleChange \<Rightarrow> GraphDataModel \<Rightarrow> StyleChange \<times> GraphDataModel" where
  "execute change model =
     (let change1 = change\<lparr>style := previous change\<rparr>;
          (old, model1) = styleForCellChanged model (cell change1) (previous change1)
      in (change1\<lparr>previous := old\<rparr>, model1))"

section \<open>The registry of change codecs\<close>

text \<open>
  Modelled from the spec: \<^verbatim>\<open>CodecRegistry\<close> is imported by \<^verbatim>\<open>StyleChange.ts\<close> and is not in
  the sources. Section 4.5 of the spec: a mapping from a tag to a codec; \<^verbatim>\<open>register(tag,
  codec)\<close> fails with a duplicate-registration error if the tag already exists;
  \<^verbatim>\<open>lookup(tag)\<close> returns the codec, or absence for an unknown kind.
\<close>

datatype registryError = DuplicateRegistration string

type_synonym 'codec CodecRegistry = "string \<rightharpoonup> 'codec"

definition register ::
  "string \<Rightarrow> 'codec \<Rightarrow> 'codec CodecRegistry \<Rightarrow> registryError + 'codec CodecRegistry" where
  "register tag codec registry =
     (case registry tag of
        Some existing \<Rightarrow> Inl (DuplicateRegistration tag)
      | None \<Rightarrow> Inr (registry(tag \<mapsto> codec)))"

definition lookup :: "string \<Rightarrow> 'codec CodecRegistry \<Rightarrow> 'codec option" where
  "lookup tag registry = registry tag"

text \<open>Registrations made one after the other; the exception of a failing one ends the
  sequence.\<close>

fun registerAll ::
  "(string \<times> 'codec) list \<Rightarrow> 'codec CodecRegistry \<Rightarrow> registryError + 'codec CodecRegistry" where
  "registerAll [] registry = Inr registry"
| "registerAll ((tag, codec) # rest) registry =
     (case register tag codec registry of
        Inl err \<Rightarrow> Inl err
      | Inr registry1 \<Rightarrow> registerAll rest registry1)"

text \<open>
  The statement at the end of \<^verbatim>\<open>StyleChange.ts\<close>:
  \<^verbatim>\<open>CodecRegistry.register(new GenericChangeCodec(new StyleChange(...), 'style'))\<close>.
  \<^verbatim>\<open>GenericChangeCodec\<close> is constructed from a template object and a string; the string
  \<^verbatim>\<open>'style'\<close> is an argument of the codec. \<^verbatim>\<open>register\<close> is called with the codec alone: the
  tag under which the registry files a codec is derived from the codec by the registry,
  which is not in the sources; that derivation is the parameter \<open>codecName\<close>.
\<close>

datatype 'template GenericChangeCodec = GenericChangeCodec 'template string

definition registerCodec ::
  "('codec \<Rightarrow> string) \<Rightarrow> 'codec \<Rightarrow> 'codec CodecRegistry
     \<Rightarrow> registryError + 'codec CodecRegistry" where
  "registerCodec codecName codec registry = register (codecName codec) codec registry"

definition registerStyleChangeCodec ::
  "('template GenericChangeCodec \<Rightarrow> string) \<Rightarrow> 'template
     \<Rightarrow> 'template GenericChangeCodec CodecRegistry
     \<Rightarrow> registryError + 'template GenericChangeCodec CodecRegistry" where
  "registerStyleChangeCodec codecName template registry =
     registerCodec codecName (GenericChangeCodec template ''style'') registry"

section \<open>Outline\<close>

text \<open>
  The class \<^verbatim>\<open>Outline\<close> of the second file. JavaScript numbers are a type \<open>'n\<close> with
  the arithmetic operators and \<^verbatim>\<open><\<close> of the source; \<^verbatim>\<open>Math.max\<close>, \<^verbatim>\<open>Math.min\<close>,
  \<^verbatim>\<open>Number.isNaN\<close> and \<^verbatim>\<open>!==\<close> on numbers are parameters, so that nothing is assumed
  about rounding or \<^verbatim>\<open>NaN\<close>.
\<close>

record 'n jsMath =
  mathMax :: "'n \<Rightarrow> 'n \<Rightarrow> 'n"
  mathMin :: "'n \<Rightarrow> 'n \<Rightarrow> 'n"
  isNaN :: "'n \<Rightarrow> bool"
  strictNe :: "'n \<Rightarrow> 'n \<Rightarrow> bool"

record 'n Point =
  pointX :: 'n
  pointY :: 'n

record 'n Rectangle =
  rectX :: 'n
  rectY :: 'n
  rectWidth :: 'n
  rectHeight :: 'n

text \<open>The fields of an \<^verbatim>\<open>HTMLElement\<close> container that \<^verbatim>\<open>update\<close> reads.\<close>

record 'n Container =
  clientWidth :: 'n
  clientHeight :: 'n
  scrollWidth :: 'n
  scrollHeight :: 'n
  scrollLeft :: 'n
  scrollTop :: 'n

text \<open>A graph view: \<^verbatim>\<open>scale\<close>, \<^verbatim>\<open>translate\<close>, \<^verbatim>\<open>currentRoot\<close>, and \<open>viewState\<close> for
  everything else the view owns (its cell states).\<close>

record ('n, 'v) GraphView =
  scale :: 'n
  translate :: "'n Point"
  currentRoot :: "Cell option"
  viewState :: 'v

record ('n, 'v) Graph =
  view :: "('n, 'v) GraphView"
  container :: "'n Container option"
  panDx :: 'n
  panDy :: 'n

text \<open>A \<^verbatim>\<open>RectangleShape\<close>: its \<^verbatim>\<open>bounds\<close>, \<^verbatim>\<open>node.style.visibility\<close>, and \<open>painted\<close>
  for what \<^verbatim>\<open>redraw\<close> has drawn.\<close>

record ('n, 'p) RectangleShape =
  shapeBounds :: "'n Rectangle option"
  visibility :: string
  painted :: 'p

text \<open>\<^verbatim>\<open>active\<close> is declared \<^verbatim>\<open>boolean | null\<close> and starts as \<^verbatim>\<open>null\<close>.\<close>

record ('n, 'v, 'p) Outline =
  outline :: "('n, 'v) Graph option"
  bounds :: "'n Rectangle option"
  selectionBorder :: "('n, 'p) RectangleShape option"
  sizer :: "('n, 'p) RectangleShape option"
  border :: 'n
  minScale :: 'n
  suspended :: bool
  active :: "bool option"

text \<open>
  Everything \<^verbatim>\<open>update\<close> can reach: the document model \<open>documentModel\<close>, which the source
  graph and the outline graph share (\<^verbatim>\<open>createGraph\<close> passes \<^verbatim>\<open>this.source.getModel()\<close>),
  the source graph (\<^verbatim>\<open>this.source\<close>, \<^verbatim>\<open>null\<close> after \<^verbatim>\<open>destroy\<close>), and the outline object
  itself with the graph, shapes and rectangle it owns.
\<close>

record ('m, 'n, 'v, 'p) outlineWorld =
  documentModel :: 'm
  source :: "('n, 'v) Graph option"
  this :: "('n, 'v, 'p) Outline"

text \<open>
  The methods of other classes that \<^verbatim>\<open>update\<close> calls are not in the sources; they are
  parameters, each acting on its receiver: \<^verbatim>\<open>source.getGraphBounds()\<close>,
  \<^verbatim>\<open>Rectangle.add\<close>, \<^verbatim>\<open>GraphView.setCurrentRoot\<close>, \<^verbatim>\<open>GraphView.revalidate\<close> (which reads
  the model) and \<^verbatim>\<open>RectangleShape.redraw\<close>. \<^verbatim>\<open>getOutlineOffset\<close> is the hook of the class
  (it returns \<^verbatim>\<open>null\<close> there).
\<close>

record ('m, 'n, 'v, 'p) outlineEnv =
  jsmath :: "'n jsMath"
  getGraphBounds :: "'m \<Rightarrow> ('n, 'v) Graph \<Rightarrow> 'n Rectangle"
  rectangleAdd :: "'n Rectangle \<Rightarrow> 'n Rectangle \<Rightarrow> 'n Rectangle"
  setCurrentRoot :: "('n, 'v) GraphView \<Rightarrow> Cell option \<Rightarrow> ('n, 'v) GraphView"
  revalidateView :: "'m \<Rightarrow> ('n, 'v) GraphView \<Rightarrow> ('n, 'v) GraphView"
  redraw :: "('n, 'p) RectangleShape \<Rightarrow> ('n, 'p) RectangleShape"
  getOutlineOffset :: "'n \<Rightarrow> 'n Point option"

definition getSourceContainerSize ::
  "('n::zero) Container \<Rightarrow> 'n Rectangle" where
  "getSourceContainerSize c =
     \<lparr>rectX = 0, rectY = 0, rectWidth = scrollWidth c, rectHeight = scrollHeight c\<rparr>"

definition rectangleNe :: "'n jsMath \<Rightarrow> 'n Rectangle \<Rightarrow> 'n Rectangle \<Rightarrow> bool" where
  "rectangleNe m b b2 =
     (strictNe m (rectX b) (rectX b2) \<or> strictNe m (rectY b) (rectY b2) \<or>
      strictNe m (rectWidth b) (rectWidth b2) \<or> strictNe m (rectHeight b) (rectHeight b2))"

text \<open>
  The end of \<^verbatim>\<open>update\<close>, from \<^verbatim>\<open>const selectionBorder\<close> on; \<open>bnds\<close> is the rectangle just
  stored in \<^verbatim>\<open>this.bounds\<close> and \<open>nav\<close> the outline graph. Reading a field of \<^verbatim>\<open>null\<close>
  throws a \<^verbatim>\<open>TypeError\<close>. The literal \<^verbatim>\<open>2\<close> is written \<open>1 + 1\<close>.
\<close>

definition updateSizer ::
  "('m, 'n::{plus,minus,times,inverse,ord,zero,one}, 'v, 'p) outlineEnv \<Rightarrow> bool
     \<Rightarrow> ('n, 'v) Graph \<Rightarrow> 'n Rectangle \<Rightarrow> ('m, 'n, 'v, 'p) outlineWorld
     \<Rightarrow> ('m, 'n, 'v, 'p) outlineWorld outcome" where
  "updateSizer env revalidate nav bnds w =
     (case sizer (this w) of
        None \<Rightarrow> Throws ''TypeError'' w
      | Some sz \<Rightarrow>
         (case shapeBounds sz of
            None \<Rightarrow> Throws ''TypeError'' w
          | Some b \<Rightarrow>
              let b2 = \<lparr>rectX = rectX bnds + rectWidth bnds - rectWidth b / (1 + 1),
                        rectY = rectY bnds + rectHeight bnds - rectHeight b / (1 + 1),
                        rectWidth = rectWidth b, rectHeight = rectHeight b\<rparr>;
                  sz1 = (if rectangleNe (jsmath env) b b2
                         then (let sz2 = sz\<lparr>shapeBounds := Some b2\<rparr>
                               in if visibility sz2 \<noteq> ''hidden'' then redraw env sz2 else sz2)
                         else sz);
                  nav1 = (if revalidate
                          then nav\<lparr>view := revalidateView env (documentModel w) (view nav)\<rparr>
                          else nav)
              in Normal (w\<lparr>this := (this w)\<lparr>sizer := Some sz1, outline := Some nav1\<rparr>\<rparr>)))"

definition updateShapes ::
  "('m, 'n::{plus,minus,times,inverse,ord,zero,one}, 'v, 'p) outlineEnv \<Rightarrow> bool
     \<Rightarrow> ('n, 'v) Graph \<Rightarrow> 'n Rectangle \<Rightarrow> ('m, 'n, 'v, 'p) outlineWorld
     \<Rightarrow> ('m, 'n, 'v, 'p) outlineWorld outcome" where
  "updateShapes env revalidate nav bnds w =
     (case selectionBorder (this w) of
        None \<Rightarrow> Throws ''TypeError'' w
      | Some sb \<Rightarrow>
         (case shapeBounds sb of
            None \<Rightarrow> Throws ''TypeError'' w
          | Some b \<Rightarrow>
              let sb1 = (if rectangleNe (jsmath env) b bnds
                         then redraw env (sb\<lparr>shapeBounds := Some bnds\<rparr>) else sb)
              in updateSizer env revalidate nav bnds
                   (w\<lparr>this := (this w)\<lparr>selectionBorder := Some sb1\<rparr>\<rparr>)))"

text \<open>The body of \<^verbatim>\<open>if (scale > 0)\<close> up to the assignment of \<^verbatim>\<open>this.bounds\<close>; \<open>src\<close>,
  \<open>srcC\<close> and \<open>nav\<close> are \<^verbatim>\<open>this.source\<close>, its container and \<^verbatim>\<open>this.outline\<close>, \<open>ugb\<close> is
  \<^verbatim>\<open>unscaledGraphBounds\<close> and \<open>scale0\<close> the scale computed for the outline.\<close>

definition updateView ::
  "('m, 'n::{plus,minus,times,inverse,ord,zero,one}, 'v, 'p) outlineEnv \<Rightarrow> bool
     \<Rightarrow> ('n, 'v) Graph \<Rightarrow> 'n Container \<Rightarrow> ('n, 'v) Graph \<Rightarrow> 'n Rectangle \<Rightarrow> 'n
     \<Rightarrow> ('m, 'n, 'v, 'p) outlineWorld \<Rightarrow> ('m, 'n, 'v, 'p) outlineWorld outcome" where
  "updateView env revalidate src srcC nav ugb scale0 w =
     (let m = jsmath env;
          changedScale = strictNe m (scale (view nav)) scale0;
          navView = (if changedScale then (view nav)\<lparr>scale := scale0\<rparr> else view nav);
          revalidate1 = (if changedScale then True else revalidate);
          navView1 = (if currentRoot navView \<noteq> currentRoot (view src)
                      then setCurrentRoot env navView (currentRoot (view src))
                      else navView);
          t = translate (view src);
          tx = pointX t + panDx src;
          ty = pointY t + panDy src;
          off = getOutlineOffset env scale0;
          tx1 = (case off of None \<Rightarrow> tx | Some p \<Rightarrow> tx + pointX p);
          ty1 = (case off of None \<Rightarrow> ty | Some p \<Rightarrow> ty + pointY p);
          tx2 = (if rectX ugb < 0 then tx1 - rectX ugb else tx1);
          ty2 = (if rectY ugb < 0 then ty1 - rectY ugb else ty1);
          moved = (strictNe m (pointX (translate navView1)) tx2 \<or>
                   strictNe m (pointY (translate navView1)) ty2);
          navView2 = (if moved then navView1\<lparr>translate := \<lparr>pointX = tx2, pointY = ty2\<rparr>\<rparr>
                      else navView1);
          revalidate2 = (if moved then True else revalidate1);
          t2 = translate navView2;
          sourceScale = scale (view src);
          scale2 = sourceScale / scale navView2;
          scale3 = 1 / scale navView2;
          bounds0 = \<lparr>rectX = (pointX t2 - pointX t - panDx src) / scale3,
                     rectY = (pointY t2 - pointY t - panDy src) / scale3,
                     rectWidth = clientWidth srcC / scale2,
                     rectHeight = clientHeight srcC / scale2\<rparr>;
          bounds1 = bounds0\<lparr>rectX := rectX bounds0 + (scrollLeft srcC * scale navView2) / sourceScale,
                            rectY := rectY bounds0 + (scrollTop srcC * scale navView2) / sourceScale\<rparr>;
          nav1 = nav\<lparr>view := navView2\<rparr>
      in updateShapes env revalidate2 nav1 bounds1
           (w\<lparr>this := (this w)\<lparr>outline := Some nav1, bounds := Some bounds1\<rparr>\<rparr>))"

text \<open>\<^verbatim>\<open>update(revalidate)\<close>: the guard on the two graphs and their containers, the scale
  of the outline, and the body above when that scale is positive.\<close>

definition update ::
  "('m, 'n::{plus,minus,times,inverse,ord,zero,one}, 'v, 'p) outlineEnv \<Rightarrow> bool
     \<Rightarrow> ('m, 'n, 'v, 'p) outlineWorld \<Rightarrow> ('m, 'n, 'v, 'p) outlineWorld outcome" where
  "update env revalidate w =
     (case source w of
        None \<Rightarrow> Normal w
      | Some src \<Rightarrow>
     (case container src of
        None \<Rightarrow> Normal w
      | Some srcC \<Rightarrow>
     (case outline (this w) of
        None \<Rightarrow> Normal w
      | Some nav \<Rightarrow>
     (case container nav of
        None \<Rightarrow> Normal w
      | Some navC \<Rightarrow>
          let m = jsmath env;
              sourceScale = scale (view src);
              scaledGraphBounds = getGraphBounds env (documentModel w) src;
              unscaledGraphBounds =
                \<lparr>rectX = rectX scaledGraphBounds / sourceScale + panDx src,
                 rectY = rectY scaledGraphBounds / sourceScale + panDy src,
                 rectWidth = rectWidth scaledGraphBounds / sourceScale,
                 rectHeight = rectHeight scaledGraphBounds / sourceScale\<rparr>;
              unscaledFinderBounds =
                \<lparr>rectX = 0, rectY = 0,
                 rectWidth = clientWidth srcC / sourceScale,
                 rectHeight = clientHeight srcC / sourceScale\<rparr>;
              union = rectangleAdd env unscaledGraphBounds unscaledFinderBounds;
              size = getSourceContainerSize srcC;
              completeWidth = mathMax m (rectWidth size / sourceScale) (rectWidth union);
              completeHeight = mathMax m (rectHeight size / sourceScale) (rectHeight union);
              availableWidth = mathMax m 0 (clientWidth navC - border (this w));
              availableHeight = mathMax m 0 (clientHeight navC - border (this w));
              outlineScale = mathMin m (availableWidth / completeWidth)
                                       (availableHeight / completeHeight);
              scale0 = (if isNaN m outlineScale then minScale (this w)
                        else mathMax m (minScale (this w)) outlineScale)
          in if scale0 > 0
             then updateView env revalidate src srcC nav unscaledGraphBounds scale0 w
             else Normal w))))"

text \<open>The \<^verbatim>\<open>updateHandler\<close> that \<^verbatim>\<open>init\<close> registers for \<^verbatim>\<open>CHANGE\<close> on the model of the source
  graph, for \<^verbatim>\<open>SCALE\<close>, \<^verbatim>\<open>TRANSLATE\<close>, \<^verbatim>\<open>SCALE_AND_TRANSLATE\<close>, \<^verbatim>\<open>DOWN\<close> and \<^verbatim>\<open>UP\<close> on its view,
  and for \<^verbatim>\<open>scroll\<close> on its container.\<close>

definition updateHandler ::
  "('m, 'n::{plus,minus,times,inverse,ord,zero,one}, 'v, 'p) outlineEnv
     \<Rightarrow> ('m, 'n, 'v, 'p) outlineWorld \<Rightarrow> ('m, 'n, 'v, 'p) outlineWorld outcome" where
  "updateHandler env w =
     (if \<not> suspended (this w) \<and> active (this w) \<noteq> Some True
      then update env False w
      else Normal w)"

section \<open>The transaction engine and the undo history\<close>

text \<open>
  Modelled from the spec: the Transaction Engine and the Undo/Redo History (the classes
  behind \<^verbatim>\<open>model.beginUpdate()\<close>, \<^verbatim>\<open>model.endUpdate()\<close> and the undoable edit that
  \<^verbatim>\<open>beforeUndo\<close> receives) are not in the sources. The definitions of this section follow
  sections 3, 4.1 and 4.3 of the spec.

  The engine is generic in the Document Tree \<open>'t\<close> and the Change Record \<open>'c\<close>; the
  parameter \<open>ap\<close> is the \<^verbatim>\<open>execute()\<close> of a record: it mutates the tree and returns the
  record with previous and new flipped. The record kept in a transaction is the object
  after that call.
\<close>

datatype 'c command = BeginUpdate | EndUpdate | Execute 'c

datatype 'c notification =
    TransactionStarted
  | UpdateNestedEnd
  | BeforeUndoNotification "'c list"
  | ChangeNotification "'c list"
  | EndUpdateNotification
  | ProtocolErrorReport
  | NothingToUndoReport

record 'c Transaction =
  changes :: "'c list"
  sequenceNumber :: nat

text \<open>
  Where the engine is in the finalization of a transaction: not at all, firing
  ``before-undo'', or firing ``change''; \<open>FiringChange stored\<close> remembers whether the
  history kept the transaction when it was pushed. The field \<open>replaying\<close> of the engine
  is set while the history replays one of its entries through the engine.
\<close>

datatype finalization = NotFinalizing | FiringBeforeUndo | FiringChange bool

record ('c, 't) engine =
  documentTree :: 't
  nesting :: nat
  openTransaction :: "'c Transaction option"
  finalizing :: finalization
  nextSequenceNumber :: nat
  past :: "'c Transaction list"
  future :: "'c Transaction list"
  sizeBound :: "nat option"
  keepEmpty :: bool
  replaying :: bool
  notifications :: "'c notification list"

text \<open>
  A listener of ``before-undo'' or ``change'' receives the Change Records of the pending
  transaction, reads the tree, and calls back into \<^verbatim>\<open>beginUpdate\<close>, \<^verbatim>\<open>execute\<close> and
  \<^verbatim>\<open>endUpdate\<close>: it is the sequence of calls it makes. Listeners are delivered to in
  registration order (4.4).
\<close>

type_synonym ('c, 't) listener = "'c list \<Rightarrow> 't \<Rightarrow> 'c command list"

record ('c, 't) listeners =
  beforeUndoListeners :: "('c, 't) listener list"
  changeListeners :: "('c, 't) listener list"

definition notify :: "'c notification \<Rightarrow> ('c, 't) engine \<Rightarrow> ('c, 't) engine" where
  "notify n e = e\<lparr>notifications := notifications e @ [n]\<rparr>"

definition pendingChanges :: "('c, 't) engine \<Rightarrow> 'c list" where
  "pendingChanges e = (case openTransaction e of None \<Rightarrow> [] | Some tx \<Rightarrow> changes tx)"

text \<open>
  \<^verbatim>\<open>beginUpdate()\<close>: increments the nesting counter; if it was 0, opens a new empty
  transaction and fires ``transaction started''. A call made while a transaction is
  being finalized extends that transaction and opens no new one.
\<close>

definition beginUpdate :: "('c, 't) engine \<Rightarrow> ('c, 't) engine" where
  "beginUpdate e =
     (if nesting e = 0 \<and> finalizing e = NotFinalizing
      then notify TransactionStarted
             (e\<lparr>nesting := 1,
                openTransaction := Some \<lparr>changes = [], sequenceNumber = nextSequenceNumber e\<rparr>,
                nextSequenceNumber := Suc (nextSequenceNumber e)\<rparr>)
      else e\<lparr>nesting := Suc (nesting e)\<rparr>)"

text \<open>
  Recording a Change Record: the record is executed and appended to the open
  transaction. The history owns a pushed transaction by reference, so a record appended
  while ``change'' fires is also seen in the entry that was pushed.
\<close>

definition recordChange ::
  "('c \<Rightarrow> 't \<Rightarrow> 'c \<times> 't) \<Rightarrow> 'c \<Rightarrow> ('c, 't) engine \<Rightarrow> ('c, 't) engine" where
  "recordChange ap c e =
     (let (c1, t1) = ap c (documentTree e);
          e1 = e\<lparr>documentTree := t1\<rparr>
      in case openTransaction e1 of
           None \<Rightarrow> e1
         | Some tx \<Rightarrow>
             let tx1 = tx\<lparr>changes := changes tx @ [c1]\<rparr>;
                 e2 = e1\<lparr>openTransaction := Some tx1\<rparr>
             in if finalizing e2 = FiringChange True
                then e2\<lparr>past := (case past e2 of [] \<Rightarrow> [] | p # ps \<Rightarrow> tx1 # ps)\<rparr>
                else e2)"

text \<open>An \<^verbatim>\<open>endUpdate()\<close> that does not close the top level: with the counter at 0 it
  reports the protocol error and leaves the counter at 0; otherwise it decrements and
  fires ``update nested-end'' only.\<close>

definition endNested :: "('c, 't) engine \<Rightarrow> ('c, 't) engine" where
  "endNested e =
     (if nesting e = 0 then notify ProtocolErrorReport e
      else notify UpdateNestedEnd (e\<lparr>nesting := nesting e - 1\<rparr>))"

text \<open>The calls a listener makes while a notification of the finalization fires.\<close>

fun reentrantCall ::
  "('c \<Rightarrow> 't \<Rightarrow> 'c \<times> 't) \<Rightarrow> 'c command \<Rightarrow> ('c, 't) engine \<Rightarrow> ('c, 't) engine" where
  "reentrantCall ap BeginUpdate e = beginUpdate e"
| "reentrantCall ap EndUpdate e = endNested e"
| "reentrantCall ap (Execute c) e = recordChange ap c e"

fun reentrantCalls ::
  "('c \<Rightarrow> 't \<Rightarrow> 'c \<times> 't) \<Rightarrow> 'c command list \<Rightarrow> ('c, 't) engine \<Rightarrow> ('c, 't) engine" where
  "reentrantCalls ap [] e = e"
| "reentrantCalls ap (cmd # cmds) e = reentrantCalls ap cmds (reentrantCall ap cmd e)"

fun dispatch ::
  "('c \<Rightarrow> 't \<Rightarrow> 'c \<times> 't) \<Rightarrow> ('c, 't) listener list \<Rightarrow> ('c, 't) engine \<Rightarrow> ('c, 't) engine" where
  "dispatch ap [] e = e"
| "dispatch ap (l # ls) e =
     dispatch ap ls (reentrantCalls ap (l (pendingChanges e) (documentTree e)) e)"

text \<open>\<^verbatim>\<open>push(transaction)\<close>: appends to ``past'' (most recent first here), clears
  ``future'', applies the size bound, which evicts the oldest entries. The history may
  discard an empty transaction; \<open>keepEmpty\<close> is that choice. The result says whether the
  transaction is now the newest entry of ``past''.\<close>

definition applyBound :: "nat option \<Rightarrow> 'a list \<Rightarrow> 'a list" where
  "applyBound b xs = (case b of None \<Rightarrow> xs | Some k \<Rightarrow> take k xs)"

definition push :: "'c Transaction \<Rightarrow> ('c, 't) engine \<Rightarrow> bool \<times> ('c, 't) engine" where
  "push tx e =
     (if changes tx = [] \<and> \<not> keepEmpty e then (False, e)
      else (let kept = applyBound (sizeBound e) (tx # past e)
            in (kept \<noteq> [], e\<lparr>past := kept, future := []\<rparr>)))"

text \<open>
  The finalization at the outermost \<^verbatim>\<open>endUpdate()\<close>: ``before-undo'' fires, the
  transaction is pushed to the history, ``change'' fires with the Change Record list,
  then ``end-update''. The transaction that wraps a replay of the history is not a new
  edit: it is not pushed, so that \<^verbatim>\<open>undo()\<close> takes an entry from ``past'' and leaves
  ``future'' to receive it.
\<close>

definition finalize ::
  "('c \<Rightarrow> 't \<Rightarrow> 'c \<times> 't) \<Rightarrow> ('c, 't) listeners \<Rightarrow> ('c, 't) engine \<Rightarrow> ('c, 't) engine" where
  "finalize ap ls e =
     (let e1 = notify (BeforeUndoNotification (pendingChanges e)) (e\<lparr>finalizing := FiringBeforeUndo\<rparr>);
          e2 = dispatch ap (beforeUndoListeners ls) e1;
          (stored, e3) = (case openTransaction e2 of
                            None \<Rightarrow> (False, e2)
                          | Some tx \<Rightarrow> if replaying e2 then (False, e2) else push tx e2);
          e4 = notify (ChangeNotification (pendingChanges e3)) (e3\<lparr>finalizing := FiringChange stored\<rparr>);
          e5 = dispatch ap (changeListeners ls) e4
      in notify EndUpdateNotification (e5\<lparr>finalizing := NotFinalizing, openTransaction := None\<rparr>))"

text \<open>\<^verbatim>\<open>endUpdate()\<close>: the protocol error at nesting 0, the nested end while the counter
  stays above 0 or a finalization is running, the finalization otherwise.\<close>

definition endUpdate ::
  "('c \<Rightarrow> 't \<Rightarrow> 'c \<times> 't) \<Rightarrow> ('c, 't) listeners \<Rightarrow> ('c, 't) engine \<Rightarrow> ('c, 't) engine" where
  "endUpdate ap ls e =
     (if nesting e = 0 \<or> nesting e - 1 > 0 \<or> finalizing e \<noteq> NotFinalizing
      then endNested e
      else finalize ap ls (e\<lparr>nesting := 0\<rparr>))"

text \<open>\<^verbatim>\<open>execute(change)\<close>: records into the open transaction, opening a top-level
  transaction of its own if none is open.\<close>

definition engineExecute ::
  "('c \<Rightarrow> 't \<Rightarrow> 'c \<times> 't) \<Rightarrow> ('c, 't) listeners \<Rightarrow> 'c \<Rightarrow> ('c, 't) engine \<Rightarrow> ('c, 't) engine" where
  "engineExecute ap ls c e =
     (if nesting e = 0 \<and> finalizing e = NotFinalizing
      then endUpdate ap ls (recordChange ap c (beginUpdate e))
      else recordChange ap c e)"

fun engineCall ::
  "('c \<Rightarrow> 't \<Rightarrow> 'c \<times> 't) \<Rightarrow> ('c, 't) listeners \<Rightarrow> 'c command \<Rightarrow> ('c, 't) engine
     \<Rightarrow> ('c, 't) engine" where
  "engineCall ap ls BeginUpdate e = beginUpdate e"
| "engineCall ap ls EndUpdate e = endUpdate ap ls e"
| "engineCall ap ls (Execute c) e = engineExecute ap ls c e"

fun engineCalls ::
  "('c \<Rightarrow> 't \<Rightarrow> 'c \<times> 't) \<Rightarrow> ('c, 't) listeners \<Rightarrow> 'c command list \<Rightarrow> ('c, 't) engine
     \<Rightarrow> ('c, 't) engine" where
  "engineCalls ap ls [] e = e"
| "engineCalls ap ls (cmd # cmds) e = engineCalls ap ls cmds (engineCall ap ls cmd e)"

text \<open>
  \<^verbatim>\<open>undo()\<close>: pops the most recent transaction from ``past'', calls \<^verbatim>\<open>execute\<close> for
  each of its records in reverse order inside its own \<^verbatim>\<open>beginUpdate\<close>/\<^verbatim>\<open>endUpdate\<close>
  pair, so that the notifications of that pair carry the records of the reversal, and
  pushes the transaction, its records now inverted, onto ``future''; on an empty ``past''
  it reports that there is nothing to undo.
\<close>

fun replay :: "('c \<Rightarrow> 't \<Rightarrow> 'c \<times> 't) \<Rightarrow> 'c list \<Rightarrow> 't \<Rightarrow> 'c list \<times> 't" where
  "replay ap [] t = ([], t)"
| "replay ap (c # cs) t =
     (let (c1, t1) = ap c t; (cs1, t2) = replay ap cs t1 in (c1 # cs1, t2))"


text \<open>The Change Records a sequence of calls asks to execute, in order.\<close>

fun executed :: "'c command list \<Rightarrow> 'c list" where
  "executed [] = []"
| "executed (Execute c # cmds) = c # executed cmds"
| "executed (cmd # cmds) = executed cmds"

text \<open>A sequence of calls in which every \<^verbatim>\<open>endUpdate\<close> closes a \<^verbatim>\<open>beginUpdate\<close> of the
  sequence and every \<^verbatim>\<open>beginUpdate\<close> is closed; \<open>d\<close> is the number of pairs open so far.\<close>

fun balanced :: "nat \<Rightarrow> 'c command list \<Rightarrow> bool" where
  "balanced d [] = (d = 0)"
| "balanced d (BeginUpdate # cmds) = balanced (Suc d) cmds"
| "balanced d (EndUpdate # cmds) = (d > 0 \<and> balanced (d - 1) cmds)"
| "balanced d (Execute c # cmds) = balanced d cmds"

text \<open>The records the listeners execute during a finalization, given the pending
  records and the tree when the first of them is called.\<close>

fun listenerChanges ::
  "('c \<Rightarrow> 't \<Rightarrow> 'c \<times> 't) \<Rightarrow> ('c, 't) listener list \<Rightarrow> 'c list \<Rightarrow> 't \<Rightarrow> 'c list" where
  "listenerChanges ap [] pending t = []"
| "listenerChanges ap (l # ls) pending t =
     (let cs = executed (l pending t); (rs, t1) = replay ap cs t
      in cs @ listenerChanges ap ls (pending @ rs) t1)"

text \<open>The notifications of the life cycle of a top-level transaction, as opposed to
  ``update nested-end'' and the reports.\<close>

fun lifecycle :: "'c notification \<Rightarrow> bool" where
  "lifecycle TransactionStarted = True"
| "lifecycle (BeforeUndoNotification cs) = True"
| "lifecycle (ChangeNotification cs) = True"
| "lifecycle EndUpdateNotification = True"
| "lifecycle n = False"

section \<open>Auxiliary notions for the statements\<close>

text \<open>\<open>ancestorsOf h cell cs\<close>: \<open>cs\<close> is the cell followed by its parent, the parent of
  that, and so on up to the cell without parent; it exists exactly when the parent
  chain is finite.\<close>

inductive ancestorsOf :: "cellHierarchy \<Rightarrow> mxCell option \<Rightarrow> mxCell list \<Rightarrow> bool" where
  ancestorsOf_null: "ancestorsOf h None []"
| ancestorsOf_cell: "ancestorsOf h (getParent h c) cs \<Longrightarrow> ancestorsOf h (Some c) (c # cs)"

code_pred ancestorsOf .

text \<open>The cells below \<open>c\<close> are fewer than \<open>n\<close> levels deep.\<close>

fun subtreeDepthBelow :: "nat \<Rightarrow> cellHierarchy \<Rightarrow> mxCell \<Rightarrow> bool" where
  "subtreeDepthBelow 0 h c = False"
| "subtreeDepthBelow (Suc n) h c = (\<forall>k \<in> set (getChildren h c). subtreeDepthBelow n h k)"

text \<open>The cells that \<^verbatim>\<open>getCellsForChange\<close> passes to \<^verbatim>\<open>addCellsWithLayout\<close> for a
  change, in the order of the calls.\<close>

fun changeCells :: "mxChange \<Rightarrow> mxCell option list" where
  "changeCells (mxChildChange child prev) = [prev, child]"
| "changeCells (mxTerminalChange cl) = [cl]"
| "changeCells (mxGeometryChange cl) = [cl]"
| "changeCells (mxVisibleChange cl) = [cl]"
| "changeCells (mxStyleChange cl) = [cl]"
| "changeCells mxRootChange = []"
| "changeCells otherChange = []"

text \<open>A small hierarchy, 1 above 2 and 4, 2 above 3; a layout manager whose
  \<^verbatim>\<open>getLayout\<close> returns a layout for cells 1 and 2 only; an environment whose world
  counts the calls of \<^verbatim>\<open>beginUpdate\<close> in ones and those of \<^verbatim>\<open>endUpdate\<close> in tens, and
  whose layout throws on cell 2.\<close>

definition exampleHierarchy :: cellHierarchy where
  "exampleHierarchy =
     \<lparr>getParent = (\<lambda>c. if c = 3 then Some 2 else if c = 2 \<or> c = 4 then Some 1 else None),
      getChildren = (\<lambda>c. if c = 1 then [2, 4] else if c = 2 then [3] else [])\<rparr>"

definition exampleManager :: "bool \<Rightarrow> string mxLayoutManager" where
  "exampleManager b =
     \<lparr>bubbling = b, enabled = True,
      getLayout = (\<lambda>cl ev. if cl = Some 1 \<or> cl = Some 2 then Some ''stack'' else None)\<rparr>"

definition exampleEnv :: "(nat, string) environment" where
  "exampleEnv =
     \<lparr>modelBeginUpdate = (\<lambda>w. w + 1),
      modelEndUpdate = (\<lambda>w. Normal (w + 10)),
      modelGetRoot = (\<lambda>w. Some 0),
      layoutExecute = (\<lambda>l c w. if c = 2 then Throws ''layout failed'' w else Normal w),
      dispatchEvent = (\<lambda>ev cs w. Normal w),
      sortCells = (\<lambda>cs ascending. cs),
      hierarchyOf = (\<lambda>w. exampleHierarchy)\<rparr>"

definition exampleState :: "nat lmState" where
  "exampleState = \<lparr>world = 0, calls = []\<rparr>"

section \<open>Auxiliary notions for the engine\<close>

text \<open>A transaction with further records appended.\<close>

definition appendRecords :: "'c list \<Rightarrow> 'c Transaction \<Rightarrow> 'c Transaction" where
  "appendRecords rs tx = tx\<lparr>changes := changes tx @ rs\<rparr>"

text \<open>The calls \<open>cmds\<close> are made inside an update: a finalization is running, or they
  close only updates they opened and at least one more update is open.\<close>

definition insideUpdate :: "('c, 't) engine \<Rightarrow> 'c command list \<Rightarrow> bool" where
  "insideUpdate e cmds =
     (finalizing e \<noteq> NotFinalizing \<or> (\<exists>d < nesting e. balanced d cmds))"

text \<open>While ``change'' fires for a transaction the history has kept, that transaction is
  the newest entry of ``past''.\<close>

definition headOpen :: "('c, 't) engine \<Rightarrow> bool" where
  "headOpen e =
     (finalizing e = FiringChange True \<longrightarrow>
        (\<exists>tx ps. openTransaction e = Some tx \<and> past e = tx # ps))"





text \<open>Notifications are only ever added.\<close>

definition extends :: "('c, 't) engine \<Rightarrow> ('c, 't) engine \<Rightarrow> bool" where
  "extends e e1 = (\<exists>ns. notifications e1 = notifications e @ ns)"

text \<open>A model in which every cell is filled red; an idle engine on it; a listener in
  the manner of the layout manager, which answers a non-empty list of changes with a
  corrective change of cell 2 inside its own \<^verbatim>\<open>beginUpdate\<close>/\<^verbatim>\<open>endUpdate\<close> pair; an edit
  of cell 1 inside a nested pair.\<close>

definition exampleModel :: GraphDataModel where
  "exampleModel = \<lparr>cellStyle = (\<lambda>c. [(''fillColor'', ''red'')])\<rparr>"

definition exampleEngine :: "(StyleChange, GraphDataModel) engine" where
  "exampleEngine =
     \<lparr>documentTree = exampleModel, nesting = 0, openTransaction = None,
      finalizing = NotFinalizing, nextSequenceNumber = 0, past = [], future = [],
      sizeBound = None, keepEmpty = False, replaying = False, notifications = []\<rparr>"

definition layoutListener :: "(StyleChange, GraphDataModel) listener" where
  "layoutListener pending t =
     (if pending = [] then []
      else [BeginUpdate,
            Execute \<lparr>cell = 2, style = [(''width'', ''10'')], previous = [(''width'', ''10'')]\<rparr>,
            EndUpdate])"

definition exampleListeners :: "(StyleChange, GraphDataModel) listeners" where
  "exampleListeners = \<lparr>beforeUndoListeners = [layoutListener], changeListeners = []\<rparr>"

definition exampleBody :: "StyleChange command list" where
  "exampleBody =
     [BeginUpdate,
      Execute \<lparr>cell = 1, style = [(''fillColor'', ''blue'')], previous = [(''fillColor'', ''blue'')]\<rparr>,
      EndUpdate]"






section \<open>Properties of the cell selection of the layout manager\<close>

lemma addAncestors_not_bubbling:
  "\<not> isBubbling lm \<Longrightarrow>
     addAncestorsWithLayout (Suc n) lm h (Some c) result = Some (result @ [c])"
  by (simp add: booleanNotNull_def)

lemma addAncestors_bubbling:
  "isBubbling lm \<Longrightarrow> ancestorsOf h cl cs \<Longrightarrow> length cs < n \<Longrightarrow>
     addAncestorsWithLayout n lm h cl result = Some (result @ cs)"
proof (induction n arbitrary: cl cs result)
  case 0
  then show ?case by simp
next
  case (Suc n)
  from Suc.prems(2) show ?case
  proof (cases rule: ancestorsOf.cases)
    case ancestorsOf_null
    then show ?thesis by simp
  next
    case (ancestorsOf_cell c cs')
    with Suc.prems have "length cs' < n" by simp
    with Suc.IH [OF Suc.prems(1) ancestorsOf_cell(3)]
    have "addAncestorsWithLayout n lm h (getParent h c) (result @ [c]) = Some ((result @ [c]) @ cs')"
      by blast
    with ancestorsOf_cell Suc.prems(1) show ?thesis
      by (simp add: booleanNotNull_def)
  qed
qed

lemma addDescendants_only_layout:
  "addDescendantsWithLayout n lm h cl result = Some r \<Longrightarrow>
     \<exists>ys. r = result @ ys \<and> (\<forall>y \<in> set ys. hasLayout lm (Some y))"
  and addDescendantsChildren_only_layout:
  "addDescendantsChildren n lm h kids result = Some r \<Longrightarrow>
     \<exists>ys. r = result @ ys \<and> (\<forall>y \<in> set ys. hasLayout lm (Some y))"
proof (induction n lm h cl result and n lm h kids result arbitrary: r and r
        rule: addDescendantsWithLayout_addDescendantsChildren.induct)
  case (1 lm h cl result)
  then show ?case by simp
next
  case (2 n lm h result)
  then show ?case by simp
next
  case (3 n lm h c result)
  then show ?case by (auto split: if_splits)
next
  case (4 n lm h result)
  then show ?case by simp
next
  case (5 n lm h child rest result)
  show ?case
  proof (cases "hasLayout lm (Some child)")
    case False
    with 5 show ?thesis by simp
  next
    case True
    with 5(4) obtain r1 where
      r1: "addDescendantsWithLayout n lm h (Some child) (result @ [child]) = Some r1"
      and r: "addDescendantsChildren n lm h rest r1 = Some r"
      by (auto split: option.splits)
    from 5(1) [OF True r1] obtain ys1 where
      ys1: "r1 = (result @ [child]) @ ys1" "\<forall>y \<in> set ys1. hasLayout lm (Some y)"
      by blast
    from 5(2) [OF True r1 r] obtain ys2 where
      ys2: "r = r1 @ ys2" "\<forall>y \<in> set ys2. hasLayout lm (Some y)"
      by blast
    from ys1 ys2 True have "r = result @ (child # ys1 @ ys2)"
      and "\<forall>y \<in> set (child # ys1 @ ys2). hasLayout lm (Some y)"
      by auto
    then show ?thesis by blast
  qed
qed

lemma addDescendantsChildren_step:
  assumes "\<And>k result. k \<in> set kids \<Longrightarrow> addDescendantsWithLayout n lm h (Some k) result \<noteq> None"
  shows "addDescendantsChildren n lm h kids result \<noteq> None"
  using assms
proof (induction kids arbitrary: result)
  case Nil
  then show ?case by simp
next
  case (Cons k kids)
  have head: "addDescendantsWithLayout n lm h (Some k) (result @ [k]) \<noteq> None"
    by (rule Cons.prems) simp
  have tail: "addDescendantsChildren n lm h kids r \<noteq> None" for r
    by (rule Cons.IH) (simp add: Cons.prems)
  from head tail show ?case by (auto split: option.splits)
qed

lemma addDescendants_returns:
  "subtreeDepthBelow n h c \<Longrightarrow> addDescendantsWithLayout n lm h (Some c) result \<noteq> None"
proof (induction n arbitrary: c result)
  case 0
  then show ?case by simp
next
  case (Suc n)
  have "addDescendantsChildren n lm h (getChildren h c) result \<noteq> None"
  proof (rule addDescendantsChildren_step)
    fix k r assume "k \<in> set (getChildren h c)"
    with Suc.prems have "subtreeDepthBelow n h k" by simp
    then show "addDescendantsWithLayout n lm h (Some k) r \<noteq> None" by (rule Suc.IH)
  qed
  then show ?case by simp
qed

text \<open>
  Claim C10. For a non-null cell, \<^verbatim>\<open>addAncestorsWithLayout\<close> appends the cell to the
  result whether or not \<^verbatim>\<open>hasLayout(cell)\<close> holds: without bubbling the result is the
  given list followed by the cell; with bubbling it is the given list followed by the
  cell and every ancestor of it, in order (for a call stack deep enough for the parent
  chain). \<^verbatim>\<open>addDescendantsWithLayout\<close> appends only cells for which \<^verbatim>\<open>hasLayout\<close> holds,
  and it returns when the stack is deep enough for the cells below.
\<close>

theorem addAncestorsWithLayout_adds_unconditionally:
  "(\<not> isBubbling lm \<longrightarrow>
      addAncestorsWithLayout (Suc n) lm h (Some c) result = Some (result @ [c])) \<and>
   (isBubbling lm \<and> ancestorsOf h (Some c) cs \<and> length cs < n \<longrightarrow>
      addAncestorsWithLayout n lm h (Some c) result = Some (result @ cs)) \<and>
   (addDescendantsWithLayout n lm h cl result = Some r \<longrightarrow>
      (\<exists>ys. r = result @ ys \<and> (\<forall>y \<in> set ys. hasLayout lm (Some y)))) \<and>
   (subtreeDepthBelow n h c \<longrightarrow> addDescendantsWithLayout n lm h (Some c) result \<noteq> None)"
  using addAncestors_not_bubbling [of lm n h c result]
    addAncestors_bubbling [of lm h "Some c" cs n result]
    addDescendants_only_layout [of n lm h cl result r]
    addDescendants_returns [of n h c lm result]
  by blast

lemma ex_chain: "ancestorsOf exampleHierarchy (Some 3) [3, 2, 1]"
proof -
  have "ancestorsOf exampleHierarchy (getParent exampleHierarchy 1) []"
    by (simp add: exampleHierarchy_def ancestorsOf_null)
  then have "ancestorsOf exampleHierarchy (Some 1) [1]" by (rule ancestorsOf_cell)
  then have "ancestorsOf exampleHierarchy (getParent exampleHierarchy 2) [1]"
    by (simp add: exampleHierarchy_def)
  then have "ancestorsOf exampleHierarchy (Some 2) [2, 1]" by (rule ancestorsOf_cell)
  then have "ancestorsOf exampleHierarchy (getParent exampleHierarchy 3) [2, 1]"
    by (simp add: exampleHierarchy_def)
  then show ?thesis by (rule ancestorsOf_cell)
qed

lemma ex_desc: "addDescendantsWithLayout 3 (exampleManager True) exampleHierarchy (Some 1) [] = Some [2]"
  by (simp add: numeral_3_eq_3 exampleManager_def exampleHierarchy_def hasLayout_def)

lemma ex_depth: "subtreeDepthBelow 3 exampleHierarchy 1"
  by (simp add: numeral_3_eq_3 exampleHierarchy_def)

text \<open>In the example cell 3 has no layout and is added all the same, alone without
  bubbling and with its ancestors 2 and 1 with bubbling; below cell 1 only cell 2, which
  has a layout, is added.\<close>

theorem addAncestorsWithLayout_adds_unconditionally_witness:
  "\<not> hasLayout (exampleManager False) (Some 3) \<and>
   addAncestorsWithLayout (Suc 0) (exampleManager False) exampleHierarchy (Some 3) [] = Some [3] \<and>
   addAncestorsWithLayout 4 (exampleManager True) exampleHierarchy (Some 3) [] = Some [3, 2, 1] \<and>
   addDescendantsWithLayout 3 (exampleManager True) exampleHierarchy (Some 1) [] = Some [2] \<and>
   hasLayout (exampleManager True) (Some 2)"
proof -
  have nb: "\<not> isBubbling (exampleManager False)"
    by (simp add: isBubbling_def exampleManager_def)
  have b: "isBubbling (exampleManager True)"
    by (simp add: isBubbling_def exampleManager_def)
  have len: "length [3::nat, 2, 1] < 4" by simp
  from addAncestorsWithLayout_adds_unconditionally
         [of "exampleManager False" 0 exampleHierarchy 3 "[]" "[]" None "[]"] nb
  have 1: "addAncestorsWithLayout (Suc 0) (exampleManager False) exampleHierarchy (Some 3) [] = Some [3]"
    by simp
  from addAncestorsWithLayout_adds_unconditionally
         [of "exampleManager True" 4 exampleHierarchy 3 "[]" "[3, 2, 1]" None "[]"] b ex_chain len
  have 2: "addAncestorsWithLayout 4 (exampleManager True) exampleHierarchy (Some 3) [] = Some [3, 2, 1]"
    by simp
  from addAncestorsWithLayout_adds_unconditionally
         [of "exampleManager True" 3 exampleHierarchy 1 "[]" "[]" "Some 1" "[2]"] ex_desc ex_depth
  have 3: "\<forall>y \<in> set [2]. hasLayout (exampleManager True) (Some y)"
    by simp
  have 4: "\<not> hasLayout (exampleManager False) (Some 3)"
    by (simp add: hasLayout_def exampleManager_def)
  from 1 2 3 4 ex_desc show ?thesis by simp
qed

section \<open>Properties of the layout run\<close>

lemma getCellsForChangesFrom_root:
  "mxRootChange \<in> set chs \<Longrightarrow>
   \<forall>ch \<in> set (takeWhile (\<lambda>ch. ch \<noteq> mxRootChange) chs). getCellsForChange n lm h ch \<noteq> None \<Longrightarrow>
   getCellsForChangesFrom n lm h chs result = Some []"
proof (induction chs arbitrary: result)
  case Nil
  then show ?case by simp
next
  case (Cons ch chs)
  show ?case
  proof (cases "ch = mxRootChange")
    case True
    then show ?thesis by simp
  next
    case False
    with Cons.prems obtain cells where cells: "getCellsForChange n lm h ch = Some cells"
      by auto
    from False Cons.prems have "mxRootChange \<in> set chs"
      and "\<forall>c \<in> set (takeWhile (\<lambda>ch. ch \<noteq> mxRootChange) chs). getCellsForChange n lm h c \<noteq> None"
      by auto
    then have "getCellsForChangesFrom n lm h chs (result @ cells) = Some []"
      by (rule Cons.IH)
    with False cells show ?thesis by simp
  qed
qed

lemma layoutCells_empty: "layoutCells env lm [] bubble st = Normal st"
  by (simp add: layoutCells_def)

lemma executeLayoutForCells_empty:
  "sortCells env [] False = [] \<Longrightarrow> executeLayoutForCells env lm [] st = Normal st"
  by (simp add: executeLayoutForCells_def layoutCells_empty)

text \<open>A stack of depth \<open>n\<close> suffices for a change when every cell it names has fewer
  than \<open>n\<close> ancestors, itself counted, and a subtree less than \<open>n\<close> levels deep.\<close>

lemma addCellsWithLayout_returns:
  assumes "0 < n"
    and "\<And>c. cl = Some c \<Longrightarrow>
           subtreeDepthBelow n h c \<and> (\<exists>cs. ancestorsOf h (Some c) cs \<and> length cs < n)"
  shows "addCellsWithLayout n lm h cl result \<noteq> None"
proof -
  from assms(1) obtain m where n: "n = Suc m" by (cases n) auto
  show ?thesis
  proof (cases cl)
    case None
    then show ?thesis by (simp add: addCellsWithLayout_def n)
  next
    case (Some c)
    from assms(2) [OF Some] obtain cs where d: "subtreeDepthBelow n h c"
      and a: "ancestorsOf h (Some c) cs" "length cs < n" by blast
    have "\<exists>r. addAncestorsWithLayout n lm h (Some c) result = Some r"
    proof (cases "isBubbling lm")
      case True
      from addAncestors_bubbling [OF True a] show ?thesis by blast
    next
      case False
      from addAncestors_not_bubbling [OF False, of m h c result] show ?thesis by (simp add: n)
    qed
    then obtain r where r: "addAncestorsWithLayout n lm h (Some c) result = Some r" ..
    from addDescendants_returns [OF d, of lm r] r Some show ?thesis
      by (simp add: addCellsWithLayout_def)
  qed
qed

lemma getCellsForChange_returns:
  assumes "0 < n"
    and "\<And>c. Some c \<in> set (changeCells ch) \<Longrightarrow>
           subtreeDepthBelow n h c \<and> (\<exists>cs. ancestorsOf h (Some c) cs \<and> length cs < n)"
  shows "getCellsForChange n lm h ch \<noteq> None"
proof (cases ch)
  case (mxChildChange child prev)
  have p: "addCellsWithLayout n lm h prev [] \<noteq> None"
    by (rule addCellsWithLayout_returns [OF assms(1)]) (simp add: assms(2) mxChildChange)
  then obtain r where r: "addCellsWithLayout n lm h prev [] = Some r" by blast
  have "addCellsWithLayout n lm h child r \<noteq> None"
    by (rule addCellsWithLayout_returns [OF assms(1)]) (simp add: assms(2) mxChildChange)
  with r mxChildChange show ?thesis by simp
qed (simp_all add: addCellsWithLayout_returns [OF assms(1)] assms(2))

lemma getCellsForChange_returns_example:
  "getCellsForChange 4 (exampleManager b) exampleHierarchy (mxChildChange (Some 3) (Some 2)) \<noteq> None"
proof (rule getCellsForChange_returns)
  show "0 < (4::nat)" by simp
next
  fix c assume "Some c \<in> set (changeCells (mxChildChange (Some 3) (Some 2)))"
  then have c: "c = 2 \<or> c = 3" by auto
  have d: "subtreeDepthBelow 4 exampleHierarchy 2" "subtreeDepthBelow 4 exampleHierarchy 3"
    by (simp_all add: eval_nat_numeral exampleHierarchy_def)
  have a3: "ancestorsOf exampleHierarchy (Some 3) [3, 2, 1]" by (rule ex_chain)
  have "ancestorsOf exampleHierarchy (getParent exampleHierarchy 1) []"
    by (simp add: exampleHierarchy_def ancestorsOf_null)
  then have "ancestorsOf exampleHierarchy (Some 1) [1]" by (rule ancestorsOf_cell)
  then have "ancestorsOf exampleHierarchy (getParent exampleHierarchy 2) [1]"
    by (simp add: exampleHierarchy_def)
  then have a2: "ancestorsOf exampleHierarchy (Some 2) [2, 1]" by (rule ancestorsOf_cell)
  from c show "subtreeDepthBelow 4 exampleHierarchy c \<and>
        (\<exists>cs. ancestorsOf exampleHierarchy (Some c) cs \<and> length cs < 4)"
  proof
    assume "c = 2"
    with d(1) a2 show ?thesis by (intro conjI exI [of _ "[2, 1]"]) simp_all
  next
    assume "c = 3"
    with d(2) a3 show ?thesis by (intro conjI exI [of _ "[3, 2, 1]"]) simp_all
  qed
qed

text \<open>
  Claim C8. When the list of changes contains an \<^verbatim>\<open>mxRootChange\<close>,
  \<^verbatim>\<open>getCellsForChanges\<close> returns the empty array, whatever changes stand before or after
  the root change, and \<^verbatim>\<open>beforeUndo\<close> then runs no layout: it makes no call and leaves
  the state as it was. The changes before the root change are visited first, so their
  cell lists must have been computed within the call stack.
\<close>

theorem getCellsForChanges_root_change_no_layout:
  assumes "mxRootChange \<in> set chs"
    and "\<forall>ch \<in> set (takeWhile (\<lambda>ch. ch \<noteq> mxRootChange) chs).
           getCellsForChange n lm (hierarchyOf env (world st)) ch \<noteq> None"
    and "sortCells env [] False = []"
  shows "getCellsForChanges n lm (hierarchyOf env (world st)) chs = Some [] \<and>
         beforeUndo n env lm chs st = Normal st"
proof -
  from assms(1,2) have "getCellsForChanges n lm (hierarchyOf env (world st)) chs = Some []"
    unfolding getCellsForChanges_def by (rule getCellsForChangesFrom_root)
  with assms(3) show ?thesis
    by (simp add: beforeUndo_def executeLayoutForCells_empty)
qed

lemma example_child_change:
  "getCellsForChange 4 (exampleManager True) exampleHierarchy (mxChildChange (Some 3) (Some 2))
     = Some [2, 1, 3, 2, 1]"
  by (simp add: eval_nat_numeral addCellsWithLayout_def exampleManager_def exampleHierarchy_def
        hasLayout_def isBubbling_def booleanNotNull_def)

theorem getCellsForChanges_root_change_no_layout_witness:
  "mxRootChange \<in> set [mxChildChange (Some 3) (Some 2), mxRootChange, mxGeometryChange (Some 3)] \<and>
   getCellsForChange 4 (exampleManager True) exampleHierarchy (mxChildChange (Some 3) (Some 2))
     = Some [2, 1, 3, 2, 1] \<and>
   getCellsForChanges 4 (exampleManager True) exampleHierarchy
     [mxChildChange (Some 3) (Some 2), mxRootChange, mxGeometryChange (Some 3)] = Some [] \<and>
   beforeUndo 4 exampleEnv (exampleManager True)
     [mxChildChange (Some 3) (Some 2), mxRootChange, mxGeometryChange (Some 3)] exampleState
     = Normal exampleState"
proof -
  let ?chs = "[mxChildChange (Some 3) (Some 2), mxRootChange, mxGeometryChange (Some 3)]"
  have h: "hierarchyOf exampleEnv (world exampleState) = exampleHierarchy"
    by (simp add: exampleEnv_def)
  have 1: "mxRootChange \<in> set ?chs" by simp
  have 2: "\<forall>ch \<in> set (takeWhile (\<lambda>ch. ch \<noteq> mxRootChange) ?chs).
             getCellsForChange 4 (exampleManager True) (hierarchyOf exampleEnv (world exampleState)) ch
               \<noteq> None"
    using example_child_change by (simp add: h del: getCellsForChange.simps)
  have 3: "sortCells exampleEnv [] False = []" by (simp add: exampleEnv_def)
  from getCellsForChanges_root_change_no_layout [OF 1 2 3] h example_child_change
  show ?thesis by simp
qed

text \<open>
  Claim C5. An edit with no changes gives the empty cell array; \<^verbatim>\<open>layoutCells\<close> on the
  empty array returns at once, with no \<^verbatim>\<open>beginUpdate\<close>, no \<^verbatim>\<open>endUpdate\<close>, no event and
  no exception; so \<^verbatim>\<open>beforeUndo\<close> and the \<^verbatim>\<open>undoHandler\<close> do nothing on such an edit
  (\<^verbatim>\<open>mxUtils.sortCells\<close> returning the empty array for the empty array).
\<close>

theorem beforeUndo_empty_edit:
  "getCellsForChanges n lm h [] = Some [] \<and>
   layoutCells env lm [] bubble st = Normal st \<and>
   (sortCells env [] False = [] \<longrightarrow>
      beforeUndo n env lm [] st = Normal st \<and> undoHandler n env lm [] st = Normal st)"
  by (simp add: getCellsForChanges_def layoutCells_empty beforeUndo_def undoHandler_def
        executeLayoutForCells_empty)

theorem beforeUndo_empty_edit_witness:
  "sortCells exampleEnv [] False = [] \<and>
   beforeUndo 4 exampleEnv (exampleManager True) [] exampleState = Normal exampleState \<and>
   undoHandler 4 exampleEnv (exampleManager True) [] exampleState = Normal exampleState"
proof -
  have 1: "sortCells exampleEnv [] False = []" by (simp add: exampleEnv_def)
  from beforeUndo_empty_edit [of 4 "exampleManager True" exampleHierarchy exampleEnv True exampleState] 1
  show ?thesis by simp
qed











section \<open>Properties of StyleChange\<close>

lemma execute_fields:
  "cell (fst (execute ch m)) = cell ch"
  "style (fst (execute ch m)) = previous ch"
  "previous (fst (execute ch m)) = cellStyle m (cell ch)"
  "snd (execute ch m) = m\<lparr>cellStyle := (cellStyle m)(cell ch := previous ch)\<rparr>"
  by (simp_all add: execute_def styleForCellChanged_def Let_def)


text \<open>
  Claim C2. Calling \<^verbatim>\<open>execute()\<close> on a StyleChange twice in succession returns the model
  to the state before the first call, for every record and every model. After the first
  call on a freshly constructed record the cell has the new style, \<^verbatim>\<open>style\<close> holds the new
  style and \<^verbatim>\<open>previous\<close> the style the cell had; each call exchanges what \<^verbatim>\<open>style\<close> and
  \<^verbatim>\<open>previous\<close> hold, so the second call is the inverse of the first.
\<close>

theorem execute_twice_restores_tree:
  "snd (execute (fst (execute ch m)) (snd (execute ch m))) = m \<and>
   cellStyle (snd (execute (fst (newStyleChange m c s)) m)) c = s \<and>
   style (fst (execute (fst (newStyleChange m c s)) m)) = s \<and>
   previous (fst (execute (fst (newStyleChange m c s)) m)) = cellStyle m c \<and>
   style (fst (execute (fst (execute ch m)) (snd (execute ch m)))) = previous (fst (execute ch m)) \<and>
   previous (fst (execute (fst (execute ch m)) (snd (execute ch m)))) = style (fst (execute ch m))"
  by (simp add: execute_fields newStyleChange_def)

text \<open>
  Claim C3 as stated fails. The claim has the constructor store the style the cell had
  before the change in \<^verbatim>\<open>previous\<close>; the constructor stores the style it is given. On a
  model whose cell 1 is filled red, a StyleChange constructed for cell 1 with a blue fill
  has the blue fill in \<^verbatim>\<open>previous\<close>.
\<close>

theorem newStyleChange_previous_counterexample:
  "previous (fst (newStyleChange exampleModel 1 [(''fillColor'', ''blue'')]))
     \<noteq> cellStyle exampleModel 1"
  by (simp add: newStyleChange_def exampleModel_def)

text \<open>
  Claim C3, amended. Constructing a StyleChange leaves the model unmodified and stores
  the style passed to the constructor, the new one, in both \<^verbatim>\<open>style\<close> and \<^verbatim>\<open>previous\<close>;
  the constructor does not read the style of the cell.
\<close>

theorem newStyleChange_stores_new_style:
  "previous (fst (newStyleChange m c s)) = s \<and>
   style (fst (newStyleChange m c s)) = s \<and>
   cell (fst (newStyleChange m c s)) = c \<and>
   snd (newStyleChange m c s) = m"
  by (simp add: newStyleChange_def)

section \<open>Properties of the codec registry\<close>

lemma register_Inr:
  "register tag codec registry = Inr registry1 \<longleftrightarrow>
     registry tag = None \<and> registry1 = registry(tag \<mapsto> codec)"
  by (auto simp: register_def split: option.splits)

lemma registerAll_Inr:
  "registerAll regs registry = Inr registry1 \<Longrightarrow>
     distinct (map fst regs) \<and> (\<forall>tag \<in> fst ` set regs. registry tag = None) \<and>
     (\<forall>tag. registry1 tag = (case map_of regs tag of None \<Rightarrow> registry tag | Some codec \<Rightarrow> Some codec))"
proof (induction regs arbitrary: registry)
  case Nil
  then show ?case by simp
next
  case (Cons reg regs)
  obtain tag codec where reg: "reg = (tag, codec)" by (cases reg)
  from Cons.prems reg obtain registry0 where
    r0: "register tag codec registry = Inr registry0"
    and rest: "registerAll regs registry0 = Inr registry1"
    by (auto split: sum.splits)
  from r0 have none: "registry tag = None" and r0_eq: "registry0 = registry(tag \<mapsto> codec)"
    by (simp_all add: register_Inr)
  note ih = Cons.IH [OF rest]
  note d = ih [THEN conjunct1]
  note fresh = ih [THEN conjunct2, THEN conjunct1]
  note look = ih [THEN conjunct2, THEN conjunct2]
  from fresh r0_eq have notin: "tag \<notin> fst ` set regs" by auto
  then have mo: "map_of regs tag = None" by (simp add: map_of_eq_None_iff)
  from fresh r0_eq have fresh0: "\<forall>t \<in> fst ` set regs. registry t = None"
    by (auto split: if_splits)
  have "\<forall>t. registry1 t
          = (case map_of (reg # regs) t of None \<Rightarrow> registry t | Some c \<Rightarrow> Some c)"
    using look r0_eq mo by (auto simp: reg split: option.splits)
  with d notin none fresh0 show ?case by (auto simp: reg)
qed

lemma registerAll_duplicate:
  "\<not> distinct (map fst regs) \<Longrightarrow>
     \<exists>tag. registerAll regs registry = Inl (DuplicateRegistration tag)"
proof (induction regs arbitrary: registry)
  case Nil
  then show ?case by simp
next
  case (Cons reg regs)
  obtain tag codec where reg: "reg = (tag, codec)" by (cases reg)
  show ?case
  proof (cases "register tag codec registry")
    case (Inl err)
    then have "err = DuplicateRegistration tag"
      by (auto simp: register_def split: option.splits)
    with Inl reg show ?thesis by simp
  next
    case (Inr registry0)
    then have r0: "registry0 = registry(tag \<mapsto> codec)" by (simp add: register_Inr)
    show ?thesis
    proof (cases "distinct (map fst regs)")
      case False
      from Cons.IH [OF False, of registry0] Inr reg show ?thesis by simp
    next
      case True
      with Cons.prems reg have "tag \<in> fst ` set regs" by auto
      have "\<exists>t. registerAll regs registry0 = Inl (DuplicateRegistration t)"
      proof (rule ccontr)
        assume "\<not> (\<exists>t. registerAll regs registry0 = Inl (DuplicateRegistration t))"
        then obtain registry1 where "registerAll regs registry0 = Inr registry1"
          by (cases "registerAll regs registry0") (metis registryError.exhaust, blast)
        from registerAll_Inr [OF this, THEN conjunct2, THEN conjunct1]
          \<open>tag \<in> fst ` set regs\<close> have "registry0 tag = None"
          by (rule bspec)
        with r0 show False by simp
      qed
      with Inr reg show ?thesis by simp
    qed
  qed
qed

text \<open>
  Claim C6. A registration under a tag that an earlier registration took fails with the
  duplicate-registration error for that tag: after a successful registration a second
  one under the same tag fails, whatever the codec, and so does a second evaluation of
  the registration at the end of \<^verbatim>\<open>StyleChange.ts\<close>; a sequence of registrations from
  the empty registry succeeds only if its tags are distinct and fails with the error as
  soon as a tag repeats. A successful registration makes the codec the result of the
  lookup of its tag and leaves the lookup of every other tag as it was; after a sequence
  of registrations from the empty registry the lookup of a tag returns the codec
  registered under it, and absence for a tag that was not registered.
\<close>

theorem register_duplicate_fails:
  "(register tag codec registry = Inr registry1 \<longrightarrow>
      register tag codec2 registry1 = Inl (DuplicateRegistration tag) \<and>
      lookup tag registry1 = Some codec \<and>
      (tag2 \<noteq> tag \<longrightarrow> lookup tag2 registry1 = lookup tag2 registry)) \<and>
   (registerAll regs Map.empty = Inr registry2 \<longrightarrow>
      distinct (map fst regs) \<and> lookup tag registry2 = map_of regs tag \<and>
      (tag \<notin> fst ` set regs \<longrightarrow> lookup tag registry2 = None)) \<and>
   (\<not> distinct (map fst regs) \<longrightarrow>
      (\<exists>dup. registerAll regs Map.empty = Inl (DuplicateRegistration dup))) \<and>
   (registerStyleChangeCodec codecName template registry3 = Inr registry4 \<longrightarrow>
      registerStyleChangeCodec codecName template registry4
        = Inl (DuplicateRegistration (codecName (GenericChangeCodec template ''style''))))"
proof -
  have 1: "register tag codec registry = Inr registry1 \<longrightarrow>
      register tag codec2 registry1 = Inl (DuplicateRegistration tag) \<and>
      lookup tag registry1 = Some codec \<and>
      (tag2 \<noteq> tag \<longrightarrow> lookup tag2 registry1 = lookup tag2 registry)"
    by (auto simp: register_def lookup_def split: option.splits)
  have 2: "registerAll regs Map.empty = Inr registry2 \<longrightarrow>
      distinct (map fst regs) \<and> lookup tag registry2 = map_of regs tag \<and>
      (tag \<notin> fst ` set regs \<longrightarrow> lookup tag registry2 = None)"
  proof
    assume a: "registerAll regs Map.empty = Inr registry2"
    from registerAll_Inr [OF a] have d: "distinct (map fst regs)"
      and l: "registry2 tag = (case map_of regs tag of None \<Rightarrow> None | Some c \<Rightarrow> Some c)"
      by auto
    from l have "lookup tag registry2 = map_of regs tag"
      by (simp add: lookup_def split: option.splits)
    with d show "distinct (map fst regs) \<and> lookup tag registry2 = map_of regs tag \<and>
      (tag \<notin> fst ` set regs \<longrightarrow> lookup tag registry2 = None)"
      by (simp add: map_of_eq_None_iff)
  qed
  have 3: "\<not> distinct (map fst regs) \<longrightarrow>
      (\<exists>dup. registerAll regs Map.empty = Inl (DuplicateRegistration dup))"
    using registerAll_duplicate [of regs Map.empty] by blast
  have 4: "registerStyleChangeCodec codecName template registry3 = Inr registry4 \<longrightarrow>
      registerStyleChangeCodec codecName template registry4
        = Inl (DuplicateRegistration (codecName (GenericChangeCodec template ''style'')))"
    by (auto simp: registerStyleChangeCodec_def registerCodec_def register_def
          split: option.splits)
  from 1 2 3 4 show ?thesis by blast
qed

text \<open>In the example the codecs registered by tag are numbers, and the registry files
  a \<^verbatim>\<open>GenericChangeCodec\<close> under the name \<^verbatim>\<open>StyleChange\<close>.\<close>

theorem register_duplicate_fails_witness:
  "register ''style'' (1::nat) Map.empty = Inr [''style'' \<mapsto> 1] \<and>
   register ''style'' (2::nat) [''style'' \<mapsto> 1] = Inl (DuplicateRegistration ''style'') \<and>
   lookup ''style'' [''style'' \<mapsto> (1::nat)] = Some 1 \<and>
   ''unknown'' \<noteq> ''style'' \<and>
   lookup ''unknown'' [''style'' \<mapsto> (1::nat)] = None \<and>
   registerAll [(''style'', 1::nat), (''geometry'', 2)] Map.empty
     = Inr [''style'' \<mapsto> 1, ''geometry'' \<mapsto> 2] \<and>
   ''unknown'' \<notin> fst ` set [(''style'', 1::nat), (''geometry'', 2)] \<and>
   lookup ''unknown'' [''style'' \<mapsto> 1::nat, ''geometry'' \<mapsto> 2] = None \<and>
   \<not> distinct (map fst [(''style'', 1::nat), (''style'', 2)]) \<and>
   registerAll [(''style'', 1::nat), (''style'', 2)] Map.empty
     = Inl (DuplicateRegistration ''style'') \<and>
   registerStyleChangeCodec (\<lambda>c. ''StyleChange'') (0::nat) Map.empty
     = Inr [''StyleChange'' \<mapsto> GenericChangeCodec 0 ''style''] \<and>
   registerStyleChangeCodec (\<lambda>c. ''StyleChange'') (0::nat)
       [''StyleChange'' \<mapsto> GenericChangeCodec 0 ''style'']
     = Inl (DuplicateRegistration ''StyleChange'')"
proof -
  let ?name = "\<lambda>c :: nat GenericChangeCodec. ''StyleChange''"
  let ?regs = "[(''style'', 1::nat), (''geometry'', 2)]"
  let ?dups = "[(''style'', 1::nat), (''style'', 2)]"
  have a: "register ''style'' (1::nat) Map.empty = Inr [''style'' \<mapsto> 1]"
    by (simp add: register_def)
  have b: "''unknown'' \<noteq> ''style''" by simp
  have c: "registerAll ?regs Map.empty = Inr [''style'' \<mapsto> 1, ''geometry'' \<mapsto> 2]"
    by (simp add: register_def)
  have d: "''unknown'' \<notin> fst ` set ?regs" by simp
  have e: "\<not> distinct (map fst ?dups)" by simp
  have f: "registerStyleChangeCodec ?name (0::nat) Map.empty
             = Inr [''StyleChange'' \<mapsto> GenericChangeCodec 0 ''style'']"
    by (simp add: registerStyleChangeCodec_def registerCodec_def register_def)
  note w1 = register_duplicate_fails
    [of "''style''" "1::nat" Map.empty "[''style'' \<mapsto> 1]" 2 "''unknown''"
        ?regs "[''style'' \<mapsto> 1, ''geometry'' \<mapsto> 2]" ?name 0 Map.empty
        "[''StyleChange'' \<mapsto> GenericChangeCodec 0 ''style'']"]
  from w1 a b have 1: "register ''style'' (2::nat) [''style'' \<mapsto> 1]
                         = Inl (DuplicateRegistration ''style'')"
    and 2: "lookup ''style'' [''style'' \<mapsto> (1::nat)] = Some 1"
    and 3: "lookup ''unknown'' [''style'' \<mapsto> (1::nat)] = lookup ''unknown'' Map.empty"
    by blast+
  from 3 have 3: "lookup ''unknown'' [''style'' \<mapsto> (1::nat)] = None"
    by (simp add: lookup_def)
  note w2 = register_duplicate_fails
    [of "''style''" "1::nat" Map.empty "[''style'' \<mapsto> 1]" 2 "''unknown''"
        ?regs "[''style'' \<mapsto> 1, ''geometry'' \<mapsto> 2]" ?name 0 Map.empty
        "[''StyleChange'' \<mapsto> GenericChangeCodec 0 ''style'']"]
  have u: "''unknown'' \<notin> fst ` set ?regs" by simp
  note w3 = register_duplicate_fails
    [of "''unknown''" "1::nat" Map.empty "[''unknown'' \<mapsto> 1]" 2 "''unknown''"
        ?regs "[''style'' \<mapsto> 1, ''geometry'' \<mapsto> 2]" ?name 0 Map.empty
        "[''StyleChange'' \<mapsto> GenericChangeCodec 0 ''style'']"]
  from w3 c u have 4: "lookup ''unknown'' [''style'' \<mapsto> 1::nat, ''geometry'' \<mapsto> 2] = None"
    by blast
  from w1 f have 5: "registerStyleChangeCodec ?name (0::nat)
       [''StyleChange'' \<mapsto> GenericChangeCodec 0 ''style'']
     = Inl (DuplicateRegistration ''StyleChange'')"
    by simp
  note w4 = register_duplicate_fails
    [of "''style''" "1::nat" Map.empty "[''style'' \<mapsto> 1]" 2 "''unknown''"
        ?dups "[''style'' \<mapsto> 1]" ?name 0 Map.empty
        "[''StyleChange'' \<mapsto> GenericChangeCodec 0 ''style'']"]
  from w4 e obtain dup where dup: "registerAll ?dups Map.empty = Inl (DuplicateRegistration dup)"
    by blast
  then have 6: "registerAll ?dups Map.empty = Inl (DuplicateRegistration ''style'')"
    by (simp add: register_def)
  from a 1 2 b 3 c d 4 e 6 f 5 show ?thesis by blast
qed

section \<open>Properties of Outline.update\<close>

lemma updateSizer_frame:
  assumes "map_option (\<lambda>g. (container g, panDx g, panDy g)) (outline (this w))
             = Some (container nav, panDx nav, panDy nav)"
  shows "documentModel (stateOf (updateSizer env rv nav bnds w)) = documentModel w \<and>
         source (stateOf (updateSizer env rv nav bnds w)) = source w \<and>
         border (this (stateOf (updateSizer env rv nav bnds w))) = border (this w) \<and>
         minScale (this (stateOf (updateSizer env rv nav bnds w))) = minScale (this w) \<and>
         suspended (this (stateOf (updateSizer env rv nav bnds w))) = suspended (this w) \<and>
         active (this (stateOf (updateSizer env rv nav bnds w))) = active (this w) \<and>
         map_option (\<lambda>g. (container g, panDx g, panDy g))
             (outline (this (stateOf (updateSizer env rv nav bnds w))))
           = Some (container nav, panDx nav, panDy nav)"
  using assms by (simp add: updateSizer_def Let_def split: option.splits)

lemma updateShapes_frame:
  assumes "map_option (\<lambda>g. (container g, panDx g, panDy g)) (outline (this w))
             = Some (container nav, panDx nav, panDy nav)"
  shows "documentModel (stateOf (updateShapes env rv nav bnds w)) = documentModel w \<and>
         source (stateOf (updateShapes env rv nav bnds w)) = source w \<and>
         border (this (stateOf (updateShapes env rv nav bnds w))) = border (this w) \<and>
         minScale (this (stateOf (updateShapes env rv nav bnds w))) = minScale (this w) \<and>
         suspended (this (stateOf (updateShapes env rv nav bnds w))) = suspended (this w) \<and>
         active (this (stateOf (updateShapes env rv nav bnds w))) = active (this w) \<and>
         map_option (\<lambda>g. (container g, panDx g, panDy g))
             (outline (this (stateOf (updateShapes env rv nav bnds w))))
           = Some (container nav, panDx nav, panDy nav)"
proof (cases "selectionBorder (this w)")
  case None
  with assms show ?thesis by (simp add: updateShapes_def)
next
  case (Some sb)
  show ?thesis
  proof (cases "shapeBounds sb")
    case None
    with Some assms show ?thesis by (simp add: updateShapes_def)
  next
    case (Some b)
    let ?w1 = "w\<lparr>this := (this w)\<lparr>selectionBorder :=
                  Some (if rectangleNe (jsmath env) b bnds
                        then redraw env (sb\<lparr>shapeBounds := Some bnds\<rparr>) else sb)\<rparr>\<rparr>"
    have a: "map_option (\<lambda>g. (container g, panDx g, panDy g)) (outline (this ?w1))
               = Some (container nav, panDx nav, panDy nav)"
      using assms by simp
    from updateSizer_frame [OF a, of env rv bnds] Some \<open>selectionBorder (this w) = Some sb\<close>
    show ?thesis by (simp add: updateShapes_def Let_def)
  qed
qed

lemma updateView_frame:
  "documentModel (stateOf (updateView env rv src srcC nav ugb scale0 w)) = documentModel w \<and>
   source (stateOf (updateView env rv src srcC nav ugb scale0 w)) = source w \<and>
   border (this (stateOf (updateView env rv src srcC nav ugb scale0 w))) = border (this w) \<and>
   minScale (this (stateOf (updateView env rv src srcC nav ugb scale0 w))) = minScale (this w) \<and>
   suspended (this (stateOf (updateView env rv src srcC nav ugb scale0 w))) = suspended (this w) \<and>
   active (this (stateOf (updateView env rv src srcC nav ugb scale0 w))) = active (this w) \<and>
   map_option (\<lambda>g. (container g, panDx g, panDy g))
       (outline (this (stateOf (updateView env rv src srcC nav ugb scale0 w))))
     = Some (container nav, panDx nav, panDy nav)"
proof -
  have fr: "\<And>nav1 w1 rv1 b1.
      container nav1 = container nav \<Longrightarrow> panDx nav1 = panDx nav \<Longrightarrow> panDy nav1 = panDy nav \<Longrightarrow>
      outline (this w1) = Some nav1 \<Longrightarrow> documentModel w1 = documentModel w \<Longrightarrow>
      source w1 = source w \<Longrightarrow> border (this w1) = border (this w) \<Longrightarrow>
      minScale (this w1) = minScale (this w) \<Longrightarrow> suspended (this w1) = suspended (this w) \<Longrightarrow>
      active (this w1) = active (this w) \<Longrightarrow>
      documentModel (stateOf (updateShapes env rv1 nav1 b1 w1)) = documentModel w \<and>
      source (stateOf (updateShapes env rv1 nav1 b1 w1)) = source w \<and>
      border (this (stateOf (updateShapes env rv1 nav1 b1 w1))) = border (this w) \<and>
      minScale (this (stateOf (updateShapes env rv1 nav1 b1 w1))) = minScale (this w) \<and>
      suspended (this (stateOf (updateShapes env rv1 nav1 b1 w1))) = suspended (this w) \<and>
      active (this (stateOf (updateShapes env rv1 nav1 b1 w1))) = active (this w) \<and>
      map_option (\<lambda>g. (container g, panDx g, panDy g))
          (outline (this (stateOf (updateShapes env rv1 nav1 b1 w1))))
        = Some (container nav, panDx nav, panDy nav)"
  proof -
    fix nav1 :: "('b, 'c) Graph" and w1 :: "('a, 'b, 'c, 'd) outlineWorld" and rv1 b1
    assume h: "container nav1 = container nav" "panDx nav1 = panDx nav" "panDy nav1 = panDy nav"
      "outline (this w1) = Some nav1" "documentModel w1 = documentModel w"
      "source w1 = source w" "border (this w1) = border (this w)"
      "minScale (this w1) = minScale (this w)" "suspended (this w1) = suspended (this w)"
      "active (this w1) = active (this w)"
    then have a: "map_option (\<lambda>g. (container g, panDx g, panDy g)) (outline (this w1))
                    = Some (container nav1, panDx nav1, panDy nav1)" by simp
    from updateShapes_frame [OF a, of env rv1 b1] h
    show "documentModel (stateOf (updateShapes env rv1 nav1 b1 w1)) = documentModel w \<and>
      source (stateOf (updateShapes env rv1 nav1 b1 w1)) = source w \<and>
      border (this (stateOf (updateShapes env rv1 nav1 b1 w1))) = border (this w) \<and>
      minScale (this (stateOf (updateShapes env rv1 nav1 b1 w1))) = minScale (this w) \<and>
      suspended (this (stateOf (updateShapes env rv1 nav1 b1 w1))) = suspended (this w) \<and>
      active (this (stateOf (updateShapes env rv1 nav1 b1 w1))) = active (this w) \<and>
      map_option (\<lambda>g. (container g, panDx g, panDy g))
          (outline (this (stateOf (updateShapes env rv1 nav1 b1 w1))))
        = Some (container nav, panDx nav, panDy nav)"
      by simp
  qed
  show ?thesis
    unfolding updateView_def Let_def
    by (rule fr) simp_all
qed

text \<open>
  Claim C7. \<^verbatim>\<open>Outline.update\<close>, and with it the \<^verbatim>\<open>updateHandler\<close> run on change, scale,
  translate and scroll events, leaves the document model and the source graph as they
  were, whether it returns or throws. Of the outline object it leaves \<^verbatim>\<open>border\<close>,
  \<^verbatim>\<open>minScale\<close>, \<^verbatim>\<open>suspended\<close> and \<^verbatim>\<open>active\<close>, and of the outline graph the container and
  the pan offsets: what it writes is the view of the outline graph, \<^verbatim>\<open>this.bounds\<close>, the
  selection border and the sizer.
\<close>

theorem update_leaves_source_graph:
  "documentModel (stateOf (update env rv w)) = documentModel w \<and>
   source (stateOf (update env rv w)) = source w \<and>
   border (this (stateOf (update env rv w))) = border (this w) \<and>
   minScale (this (stateOf (update env rv w))) = minScale (this w) \<and>
   suspended (this (stateOf (update env rv w))) = suspended (this w) \<and>
   active (this (stateOf (update env rv w))) = active (this w) \<and>
   map_option (\<lambda>g. (container g, panDx g, panDy g)) (outline (this (stateOf (update env rv w))))
     = map_option (\<lambda>g. (container g, panDx g, panDy g)) (outline (this w)) \<and>
   documentModel (stateOf (updateHandler env w)) = documentModel w \<and>
   source (stateOf (updateHandler env w)) = source w"
proof -
  have u: "documentModel (stateOf (update env rv w)) = documentModel w \<and>
   source (stateOf (update env rv w)) = source w \<and>
   border (this (stateOf (update env rv w))) = border (this w) \<and>
   minScale (this (stateOf (update env rv w))) = minScale (this w) \<and>
   suspended (this (stateOf (update env rv w))) = suspended (this w) \<and>
   active (this (stateOf (update env rv w))) = active (this w) \<and>
   map_option (\<lambda>g. (container g, panDx g, panDy g)) (outline (this (stateOf (update env rv w))))
     = map_option (\<lambda>g. (container g, panDx g, panDy g)) (outline (this w))" for rv
  proof (cases "source w")
    case None
    then show ?thesis by (simp add: update_def)
  next
    case (Some src)
    note src = this
    show ?thesis
    proof (cases "container src")
      case None
      with src show ?thesis by (simp add: update_def)
    next
      case (Some srcC)
      note srcC = this
      show ?thesis
      proof (cases "outline (this w)")
        case None
        with src srcC show ?thesis by (simp add: update_def)
      next
        case (Some nav)
        note nav = this
        show ?thesis
        proof (cases "container nav")
          case None
          with src srcC nav show ?thesis by (simp add: update_def)
        next
          case (Some navC)
          have "update env rv w = Normal w \<or>
                (\<exists>ugb scale0. update env rv w = updateView env rv src srcC nav ugb scale0 w)"
            using src srcC nav Some by (auto simp: update_def Let_def)
          then show ?thesis
          proof
            assume "update env rv w = Normal w"
            then show ?thesis by simp
          next
            assume "\<exists>ugb scale0. update env rv w = updateView env rv src srcC nav ugb scale0 w"
            then obtain ugb scale0 where
              "update env rv w = updateView env rv src srcC nav ugb scale0 w" by blast
            with updateView_frame [of env rv src srcC nav ugb scale0 w] nav
            show ?thesis by simp
          qed
        qed
      qed
    qed
  qed
  from u [of rv] u [of False] show ?thesis by (simp add: updateHandler_def)
qed

section \<open>Properties of the transaction engine\<close>

lemma appendRecords_Nil [simp]: "appendRecords [] tx = tx"
  by (simp add: appendRecords_def)

lemma appendRecords_append [simp]:
  "appendRecords ys (appendRecords xs tx) = appendRecords (xs @ ys) tx"
  by (simp add: appendRecords_def)

lemma map_appendRecords_Nil [simp]: "map_option (appendRecords []) x = x"
  by (cases x) simp_all

lemma map_appendRecords_append [simp]:
  "map_option (appendRecords ys) (map_option (appendRecords xs) x)
     = map_option (appendRecords (xs @ ys)) x"
  by (cases x) simp_all

lemma replay_Cons_fst:
  "fst (replay ap (c # cs) t) = fst (ap c t) # fst (replay ap cs (snd (ap c t)))"
  by (simp add: split_def Let_def)

lemma replay_Cons_snd:
  "snd (replay ap (c # cs) t) = snd (replay ap cs (snd (ap c t)))"
  by (simp add: split_def Let_def)

lemma replay_append_fst:
  "fst (replay ap (xs @ ys) t) = fst (replay ap xs t) @ fst (replay ap ys (snd (replay ap xs t)))"
  by (induction xs arbitrary: t) (simp_all add: replay_Cons_fst replay_Cons_snd del: replay.simps(2))

lemma replay_append_snd:
  "snd (replay ap (xs @ ys) t) = snd (replay ap ys (snd (replay ap xs t)))"
  by (induction xs arbitrary: t) (simp_all add: replay_Cons_snd del: replay.simps(2))

lemma replay_length: "length (fst (replay ap xs t)) = length xs"
  by (induction xs arbitrary: t) (simp_all add: replay_Cons_fst del: replay.simps(2))

lemma recordChange_tree: "documentTree (recordChange ap c e) = snd (ap c (documentTree e))"
  by (simp add: recordChange_def split_def Let_def split: option.splits)

lemma recordChange_open:
  "openTransaction (recordChange ap c e)
     = map_option (appendRecords [fst (ap c (documentTree e))]) (openTransaction e)"
  by (simp add: recordChange_def split_def Let_def appendRecords_def split: option.splits)

lemma recordChange_same:
  "nesting (recordChange ap c e) = nesting e"
  "finalizing (recordChange ap c e) = finalizing e"
  "nextSequenceNumber (recordChange ap c e) = nextSequenceNumber e"
  "future (recordChange ap c e) = future e"
  "sizeBound (recordChange ap c e) = sizeBound e"
  "keepEmpty (recordChange ap c e) = keepEmpty e"
  "notifications (recordChange ap c e) = notifications e"
  "replaying (recordChange ap c e) = replaying e"
  by (simp_all add: recordChange_def split_def Let_def split: option.splits)

lemma recordChange_past:
  "past (recordChange ap c e) =
     (if finalizing e = FiringChange True
      then (case openTransaction e of
              None \<Rightarrow> past e
            | Some tx \<Rightarrow> (case past e of [] \<Rightarrow> []
                          | p # ps \<Rightarrow> appendRecords [fst (ap c (documentTree e))] tx # ps))
      else past e)"
  by (simp add: recordChange_def split_def Let_def appendRecords_def split: option.splits list.splits)

lemma insideUpdate_step:
  "insideUpdate e (cmd # cmds) \<Longrightarrow> insideUpdate (reentrantCall ap cmd e) cmds"
proof (cases cmd)
  case BeginUpdate
  assume "insideUpdate e (cmd # cmds)"
  with BeginUpdate show ?thesis
    by (auto simp: insideUpdate_def beginUpdate_def notify_def)
next
  case EndUpdate
  assume a: "insideUpdate e (cmd # cmds)"
  show ?thesis
  proof (cases "finalizing e = NotFinalizing")
    case False
    with EndUpdate show ?thesis by (simp add: insideUpdate_def endNested_def notify_def)
  next
    case True
    with a EndUpdate obtain d where d: "d < nesting e" "0 < d" "balanced (d - 1) cmds"
      by (auto simp: insideUpdate_def)
    then have "d - 1 < nesting e - 1" by arith
    with d EndUpdate show ?thesis
      by (auto simp: insideUpdate_def endNested_def notify_def)
  qed
next
  case (Execute c)
  assume "insideUpdate e (cmd # cmds)"
  with Execute show ?thesis
    by (auto simp: insideUpdate_def recordChange_same)
qed

lemma insideUpdate_call:
  assumes "insideUpdate e (cmd # cmds)"
  shows "engineCall ap ls cmd e = reentrantCall ap cmd e"
proof (cases cmd)
  case BeginUpdate
  then show ?thesis by simp
next
  case EndUpdate
  show ?thesis
  proof (cases "finalizing e = NotFinalizing")
    case False
    with EndUpdate show ?thesis by (simp add: endUpdate_def)
  next
    case True
    with assms EndUpdate obtain d where "d < nesting e" "0 < d"
      by (auto simp: insideUpdate_def)
    then have "nesting e - 1 > 0" by arith
    with EndUpdate show ?thesis by (simp add: endUpdate_def)
  qed
next
  case (Execute c)
  with assms show ?thesis
    by (auto simp: insideUpdate_def engineExecute_def)
qed

lemma insideUpdate_calls:
  "insideUpdate e cmds \<Longrightarrow> engineCalls ap ls cmds e = reentrantCalls ap cmds e"
proof (induction cmds arbitrary: e)
  case Nil
  then show ?case by simp
next
  case (Cons cmd cmds)
  from Cons.prems have "insideUpdate (reentrantCall ap cmd e) cmds"
    by (rule insideUpdate_step)
  then have "engineCalls ap ls cmds (reentrantCall ap cmd e)
               = reentrantCalls ap cmds (reentrantCall ap cmd e)"
    by (rule Cons.IH)
  with insideUpdate_call [OF Cons.prems] show ?case by simp
qed

lemma beginUpdate_inside:
  "finalizing e \<noteq> NotFinalizing \<or> 0 < nesting e \<Longrightarrow> beginUpdate e = e\<lparr>nesting := Suc (nesting e)\<rparr>"
  by (auto simp: beginUpdate_def)

lemma insideUpdate_guard:
  "insideUpdate e cmds \<Longrightarrow> finalizing e \<noteq> NotFinalizing \<or> 0 < nesting e"
  by (auto simp: insideUpdate_def)

lemma reentrantCall_fields:
  assumes "finalizing e \<noteq> NotFinalizing \<or> 0 < nesting e"
  shows "documentTree (reentrantCall ap cmd e) = snd (replay ap (executed [cmd]) (documentTree e))"
    and "openTransaction (reentrantCall ap cmd e)
           = map_option (appendRecords (fst (replay ap (executed [cmd]) (documentTree e))))
               (openTransaction e)"
    and "finalizing (reentrantCall ap cmd e) = finalizing e"
    and "nextSequenceNumber (reentrantCall ap cmd e) = nextSequenceNumber e"
    and "future (reentrantCall ap cmd e) = future e"
    and "sizeBound (reentrantCall ap cmd e) = sizeBound e"
    and "keepEmpty (reentrantCall ap cmd e) = keepEmpty e"
    and "filter lifecycle (notifications (reentrantCall ap cmd e)) = filter lifecycle (notifications e)"
proof -
  note b = beginUpdate_inside [OF assms]
  show "documentTree (reentrantCall ap cmd e) = snd (replay ap (executed [cmd]) (documentTree e))"
    by (cases cmd) (simp_all add: b endNested_def notify_def recordChange_tree split_def Let_def)
  show "openTransaction (reentrantCall ap cmd e)
           = map_option (appendRecords (fst (replay ap (executed [cmd]) (documentTree e))))
               (openTransaction e)"
    by (cases cmd)
       (simp_all add: b endNested_def notify_def recordChange_open split_def Let_def
          option.map_ident)
  show "finalizing (reentrantCall ap cmd e) = finalizing e"
    by (cases cmd) (simp_all add: b endNested_def notify_def recordChange_same)
  show "nextSequenceNumber (reentrantCall ap cmd e) = nextSequenceNumber e"
    by (cases cmd) (simp_all add: b endNested_def notify_def recordChange_same)
  show "future (reentrantCall ap cmd e) = future e"
    by (cases cmd) (simp_all add: b endNested_def notify_def recordChange_same)
  show "sizeBound (reentrantCall ap cmd e) = sizeBound e"
    by (cases cmd) (simp_all add: b endNested_def notify_def recordChange_same)
  show "keepEmpty (reentrantCall ap cmd e) = keepEmpty e"
    by (cases cmd) (simp_all add: b endNested_def notify_def recordChange_same)
  show "filter lifecycle (notifications (reentrantCall ap cmd e)) = filter lifecycle (notifications e)"
    by (cases cmd) (simp_all add: b endNested_def notify_def recordChange_same)
qed

lemma reentrantCalls_fields:
  assumes "insideUpdate e cmds"
  shows "documentTree (reentrantCalls ap cmds e) = snd (replay ap (executed cmds) (documentTree e))"
    and "openTransaction (reentrantCalls ap cmds e)
           = map_option (appendRecords (fst (replay ap (executed cmds) (documentTree e))))
               (openTransaction e)"
    and "finalizing (reentrantCalls ap cmds e) = finalizing e"
    and "nextSequenceNumber (reentrantCalls ap cmds e) = nextSequenceNumber e"
    and "future (reentrantCalls ap cmds e) = future e"
    and "sizeBound (reentrantCalls ap cmds e) = sizeBound e"
    and "keepEmpty (reentrantCalls ap cmds e) = keepEmpty e"
    and "filter lifecycle (notifications (reentrantCalls ap cmds e))
           = filter lifecycle (notifications e)"
  using assms
proof (induction cmds arbitrary: e)
  case Nil
  { case 1 show ?case by simp }
  { case 2 show ?case by (simp add: option.map_ident) }
  { case 3 show ?case by simp }
  { case 4 show ?case by simp }
  { case 5 show ?case by simp }
  { case 6 show ?case by simp }
  { case 7 show ?case by simp }
  { case 8 show ?case by simp }
next
  case (Cons cmd cmds)
  {
    fix e :: "('a, 'b) engine"
    assume inside: "insideUpdate e (cmd # cmds)"
    note g = insideUpdate_guard [OF inside]
    note st = insideUpdate_step [OF inside, of ap]
    note f = reentrantCall_fields [OF g, of ap cmd]
    have ex: "executed (cmd # cmds) = executed [cmd] @ executed cmds"
      by (cases cmd) simp_all
    have "documentTree (reentrantCalls ap (cmd # cmds) e)
            = snd (replay ap (executed (cmd # cmds)) (documentTree e))"
      by (simp add: Cons.IH(1) [OF st] f(1) ex replay_append_snd del: executed.simps)
    moreover have "openTransaction (reentrantCalls ap (cmd # cmds) e)
           = map_option (appendRecords (fst (replay ap (executed (cmd # cmds)) (documentTree e))))
               (openTransaction e)"
      by (simp add: Cons.IH(2) [OF st] f(1,2) ex replay_append_fst del: executed.simps)
    moreover have "finalizing (reentrantCalls ap (cmd # cmds) e) = finalizing e"
      by (simp add: Cons.IH(3) [OF st] f(3))
    moreover have "nextSequenceNumber (reentrantCalls ap (cmd # cmds) e) = nextSequenceNumber e"
      by (simp add: Cons.IH(4) [OF st] f(4))
    moreover have "future (reentrantCalls ap (cmd # cmds) e) = future e"
      by (simp add: Cons.IH(5) [OF st] f(5))
    moreover have "sizeBound (reentrantCalls ap (cmd # cmds) e) = sizeBound e"
      by (simp add: Cons.IH(6) [OF st] f(6))
    moreover have "keepEmpty (reentrantCalls ap (cmd # cmds) e) = keepEmpty e"
      by (simp add: Cons.IH(7) [OF st] f(7))
    moreover have "filter lifecycle (notifications (reentrantCalls ap (cmd # cmds) e))
           = filter lifecycle (notifications e)"
      by (simp add: Cons.IH(8) [OF st] f(8))
    ultimately have
      "documentTree (reentrantCalls ap (cmd # cmds) e)
            = snd (replay ap (executed (cmd # cmds)) (documentTree e)) \<and>
       openTransaction (reentrantCalls ap (cmd # cmds) e)
           = map_option (appendRecords (fst (replay ap (executed (cmd # cmds)) (documentTree e))))
               (openTransaction e) \<and>
       finalizing (reentrantCalls ap (cmd # cmds) e) = finalizing e \<and>
       nextSequenceNumber (reentrantCalls ap (cmd # cmds) e) = nextSequenceNumber e \<and>
       future (reentrantCalls ap (cmd # cmds) e) = future e \<and>
       sizeBound (reentrantCalls ap (cmd # cmds) e) = sizeBound e \<and>
       keepEmpty (reentrantCalls ap (cmd # cmds) e) = keepEmpty e \<and>
       filter lifecycle (notifications (reentrantCalls ap (cmd # cmds) e))
           = filter lifecycle (notifications e)"
      by blast
  }
  note all = this
  { case 1 with all show ?case by blast }
  { case 2 with all show ?case by blast }
  { case 3 with all show ?case by blast }
  { case 4 with all show ?case by blast }
  { case 5 with all show ?case by blast }
  { case 6 with all show ?case by blast }
  { case 7 with all show ?case by blast }
  { case 8 with all show ?case by blast }
qed

lemma reentrantCall_replaying: "replaying (reentrantCall ap cmd e) = replaying e"
  by (cases cmd) (simp_all add: beginUpdate_def endNested_def notify_def recordChange_same)

lemma reentrantCalls_replaying: "replaying (reentrantCalls ap cmds e) = replaying e"
  by (induction cmds arbitrary: e) (simp_all add: reentrantCall_replaying)

lemma dispatch_replaying: "replaying (dispatch ap ls e) = replaying e"
  by (induction ls arbitrary: e) (simp_all add: reentrantCalls_replaying)

lemma reentrantCall_past:
  assumes "finalizing e \<noteq> NotFinalizing \<or> 0 < nesting e" and "headOpen e"
  shows "headOpen (reentrantCall ap cmd e)"
    and "past (reentrantCall ap cmd e) =
           (if finalizing e = FiringChange True
            then (case openTransaction (reentrantCall ap cmd e) of
                    None \<Rightarrow> past e | Some tx \<Rightarrow> tx # tl (past e))
            else past e)"
proof -
  note b = beginUpdate_inside [OF assms(1)]
  show "headOpen (reentrantCall ap cmd e)"
    using assms(2)
    by (cases cmd)
       (auto simp: b headOpen_def endNested_def notify_def recordChange_same recordChange_open
          recordChange_past)
  show "past (reentrantCall ap cmd e) =
           (if finalizing e = FiringChange True
            then (case openTransaction (reentrantCall ap cmd e) of
                    None \<Rightarrow> past e | Some tx \<Rightarrow> tx # tl (past e))
            else past e)"
    using assms(2)
    by (cases cmd)
       (auto simp: b headOpen_def endNested_def notify_def recordChange_same recordChange_open
          recordChange_past)
qed

lemma reentrantCalls_past:
  assumes "insideUpdate e cmds" and "headOpen e"
  shows "headOpen (reentrantCalls ap cmds e) \<and>
         past (reentrantCalls ap cmds e) =
           (if finalizing e = FiringChange True
            then (case openTransaction (reentrantCalls ap cmds e) of
                    None \<Rightarrow> past e | Some tx \<Rightarrow> tx # tl (past e))
            else past e)"
  using assms
proof (induction cmds arbitrary: e)
  case Nil
  then show ?case by (auto simp: headOpen_def)
next
  case (Cons cmd cmds)
  note g = insideUpdate_guard [OF Cons.prems(1)]
  note st = insideUpdate_step [OF Cons.prems(1), of ap]
  note p = reentrantCall_past [OF g Cons.prems(2), of ap cmd]
  note f = reentrantCall_fields [OF g, of ap cmd]
  from Cons.IH [OF st p(1)]
  have ho: "headOpen (reentrantCalls ap cmds (reentrantCall ap cmd e))"
    and pa: "past (reentrantCalls ap cmds (reentrantCall ap cmd e)) =
           (if finalizing (reentrantCall ap cmd e) = FiringChange True
            then (case openTransaction (reentrantCalls ap cmds (reentrantCall ap cmd e)) of
                    None \<Rightarrow> past (reentrantCall ap cmd e)
                  | Some tx \<Rightarrow> tx # tl (past (reentrantCall ap cmd e)))
            else past (reentrantCall ap cmd e))"
    by blast+
  show ?case
  proof (cases "finalizing e = FiringChange True")
    case False
    with ho pa p(2) f(3) show ?thesis by simp
  next
    case True
    with Cons.prems(2) obtain tx ps where tx: "openTransaction e = Some tx" "past e = tx # ps"
      by (auto simp: headOpen_def)
    from tx f(2) obtain tx1 where tx1: "openTransaction (reentrantCall ap cmd e) = Some tx1"
      by auto
    with True p(2) have p1: "past (reentrantCall ap cmd e) = tx1 # tl (past e)" by simp
    from reentrantCalls_fields(2) [OF st, of ap] tx1
    obtain tx2 where tx2: "openTransaction (reentrantCalls ap cmds (reentrantCall ap cmd e)) = Some tx2"
      by auto
    from True f(3) pa tx2 p1
    have "past (reentrantCalls ap cmds (reentrantCall ap cmd e)) = tx2 # tl (past e)"
      by simp
    with ho True tx2 show ?thesis by simp
  qed
qed

lemma reentrantCalls_nesting:
  "finalizing e = NotFinalizing \<Longrightarrow> balanced d cmds \<Longrightarrow> d < nesting e \<Longrightarrow>
     nesting (reentrantCalls ap cmds e) = nesting e - d"
proof (induction cmds arbitrary: e d)
  case Nil
  then show ?case by simp
next
  case (Cons cmd cmds)
  show ?case
  proof (cases cmd)
    case BeginUpdate
    with Cons.prems have "nesting (reentrantCalls ap cmds (beginUpdate e)) = nesting (beginUpdate e) - Suc d"
      by (intro Cons.IH) (auto simp: beginUpdate_def)
    with BeginUpdate Cons.prems show ?thesis by (auto simp: beginUpdate_def)
  next
    case EndUpdate
    with Cons.prems have d: "0 < d" "balanced (d - 1) cmds" by auto
    with Cons.prems have "nesting (reentrantCalls ap cmds (endNested e)) = nesting (endNested e) - (d - 1)"
      by (intro Cons.IH) (auto simp: endNested_def notify_def)
    with EndUpdate Cons.prems d show ?thesis by (auto simp: endNested_def notify_def)
  next
    case (Execute c)
    with Cons.prems have "nesting (reentrantCalls ap cmds (recordChange ap c e)) = nesting (recordChange ap c e) - d"
      by (intro Cons.IH) (auto simp: recordChange_same)
    with Execute show ?thesis by (simp add: recordChange_same)
  qed
qed

lemma engineCalls_append:
  "engineCalls ap ls (xs @ ys) e = engineCalls ap ls ys (engineCalls ap ls xs e)"
  by (induction xs arbitrary: e) simp_all

lemma listenerChanges_append:
  "listenerChanges ap (xs @ ys) pending t =
     listenerChanges ap xs pending t @
     listenerChanges ap ys (pending @ fst (replay ap (listenerChanges ap xs pending t) t))
       (snd (replay ap (listenerChanges ap xs pending t) t))"
  by (induction xs arbitrary: pending t)
     (simp_all add: split_def Let_def replay_append_fst replay_append_snd)

lemma insideUpdate_finalizing: "finalizing e \<noteq> NotFinalizing \<Longrightarrow> insideUpdate e cmds"
  by (simp add: insideUpdate_def)

lemma changes_appendRecords [simp]: "changes (appendRecords rs tx) = changes tx @ rs"
  by (simp add: appendRecords_def)

lemma sequenceNumber_appendRecords [simp]:
  "sequenceNumber (appendRecords rs tx) = sequenceNumber tx"
  by (simp add: appendRecords_def)

lemma dispatch_fields:
  assumes "finalizing e \<noteq> NotFinalizing" and "openTransaction e = Some tx"
  shows "documentTree (dispatch ap ls e)
           = snd (replay ap (listenerChanges ap ls (changes tx) (documentTree e)) (documentTree e)) \<and>
         openTransaction (dispatch ap ls e)
           = Some (appendRecords
                (fst (replay ap (listenerChanges ap ls (changes tx) (documentTree e)) (documentTree e)))
                tx) \<and>
         finalizing (dispatch ap ls e) = finalizing e \<and>
         nextSequenceNumber (dispatch ap ls e) = nextSequenceNumber e \<and>
         future (dispatch ap ls e) = future e \<and>
         sizeBound (dispatch ap ls e) = sizeBound e \<and>
         keepEmpty (dispatch ap ls e) = keepEmpty e \<and>
         filter lifecycle (notifications (dispatch ap ls e)) = filter lifecycle (notifications e)"
  using assms
proof (induction ls arbitrary: e tx)
  case Nil
  then show ?case by simp
next
  case (Cons l ls)
  let ?cmds = "l (pendingChanges e) (documentTree e)"
  let ?e1 = "reentrantCalls ap ?cmds e"
  let ?cs = "executed ?cmds"
  let ?rs = "fst (replay ap ?cs (documentTree e))"
  have pend: "pendingChanges e = changes tx"
    using Cons.prems(2) by (simp add: pendingChanges_def)
  note ins = insideUpdate_finalizing [OF Cons.prems(1), of ?cmds]
  note f = reentrantCalls_fields [OF ins, of ap]
  have fin1: "finalizing ?e1 \<noteq> NotFinalizing" using f(3) Cons.prems(1) by simp
  have open1: "openTransaction ?e1 = Some (appendRecords ?rs tx)"
    using f(2) Cons.prems(2) by simp
  note ih = Cons.IH [OF fin1 open1]
  have lc: "listenerChanges ap (l # ls) (changes tx) (documentTree e)
              = ?cs @ listenerChanges ap ls (changes tx @ ?rs) (documentTree ?e1)"
    using f(1) by (simp add: split_def Let_def pend)
  show ?case
    unfolding lc
    using ih f
    by (simp add: replay_append_fst replay_append_snd pend)
qed

lemma dispatch_past:
  assumes "finalizing e \<noteq> NotFinalizing" and "headOpen e"
  shows "headOpen (dispatch ap ls e) \<and>
         past (dispatch ap ls e) =
           (if finalizing e = FiringChange True
            then (case openTransaction (dispatch ap ls e) of
                    None \<Rightarrow> past e | Some tx \<Rightarrow> tx # tl (past e))
            else past e)"
  using assms
proof (induction ls arbitrary: e)
  case Nil
  then show ?case by (auto simp: headOpen_def)
next
  case (Cons l ls)
  let ?cmds = "l (pendingChanges e) (documentTree e)"
  let ?e1 = "reentrantCalls ap ?cmds e"
  note ins = insideUpdate_finalizing [OF Cons.prems(1), of ?cmds]
  note f = reentrantCalls_fields [OF ins, of ap]
  note p = reentrantCalls_past [OF ins Cons.prems(2), of ap]
  have fin1: "finalizing ?e1 \<noteq> NotFinalizing" using f(3) Cons.prems(1) by simp
  from p have ho1: "headOpen ?e1" by blast
  note ih = Cons.IH [OF fin1 ho1]
  show ?case
  proof (cases "finalizing e = FiringChange True")
    case False
    with ih p f(3) show ?thesis by simp
  next
    case True
    with Cons.prems(2) obtain tx ps where tx: "openTransaction e = Some tx" "past e = tx # ps"
      by (auto simp: headOpen_def)
    from f(2) tx obtain tx1 where tx1: "openTransaction ?e1 = Some tx1" by auto
    from dispatch_fields [OF fin1 tx1, of ap ls]
    obtain tx2 where tx2: "openTransaction (dispatch ap ls ?e1) = Some tx2" by blast
    from p True tx1 have "past ?e1 = tx1 # tl (past e)" by simp
    with ih True f(3) tx2 show ?thesis by simp
  qed
qed

lemma applyBound_head:
  "applyBound b (x # xs) \<noteq> [] \<Longrightarrow> applyBound b (x # xs) = x # tl (applyBound b (x # xs))"
  by (cases b) (auto simp: applyBound_def take_Cons split: nat.splits)

lemma notify_fields [simp]:
  "documentTree (notify n e) = documentTree e"
  "nesting (notify n e) = nesting e"
  "openTransaction (notify n e) = openTransaction e"
  "finalizing (notify n e) = finalizing e"
  "nextSequenceNumber (notify n e) = nextSequenceNumber e"
  "past (notify n e) = past e"
  "future (notify n e) = future e"
  "sizeBound (notify n e) = sizeBound e"
  "keepEmpty (notify n e) = keepEmpty e"
  "replaying (notify n e) = replaying e"
  "notifications (notify n e) = notifications e @ [n]"
  "pendingChanges (notify n e) = pendingChanges e"
  by (simp_all add: notify_def pendingChanges_def)

lemma finalize_fields:
  fixes ap :: "'c \<Rightarrow> 't \<Rightarrow> 'c \<times> 't" and ls :: "('c, 't) listeners"
    and e :: "('c, 't) engine" and tx :: "'c Transaction"
  assumes op: "openTransaction e = Some tx" and nf: "finalizing e = NotFinalizing"
  defines "t \<equiv> documentTree e"
  defines "LB \<equiv> listenerChanges ap (beforeUndoListeners ls) (changes tx) t"
  defines "txB \<equiv> appendRecords (fst (replay ap LB t)) tx"
  defines "LC \<equiv> listenerChanges ap (changeListeners ls) (changes txB) (snd (replay ap LB t))"
  defines "txC \<equiv> appendRecords (fst (replay ap LC (snd (replay ap LB t)))) txB"
  shows "documentTree (finalize ap ls e) = snd (replay ap LC (snd (replay ap LB t)))"
    and "openTransaction (finalize ap ls e) = None"
    and "finalizing (finalize ap ls e) = NotFinalizing"
    and "nextSequenceNumber (finalize ap ls e) = nextSequenceNumber e"
    and "filter lifecycle (notifications (finalize ap ls e))
           = filter lifecycle (notifications e) @
             [BeforeUndoNotification (changes tx), ChangeNotification (changes txB),
              EndUpdateNotification]"
    and "past (finalize ap ls e) =
           (if replaying e \<or> changes txB = [] \<and> \<not> keepEmpty e then past e
            else if applyBound (sizeBound e) (txB # past e) = [] then []
            else txC # tl (applyBound (sizeBound e) (txB # past e)))"
    and "sizeBound (finalize ap ls e) = sizeBound e"
    and "keepEmpty (finalize ap ls e) = keepEmpty e"
    and "replaying (finalize ap ls e) = replaying e"
    and "future (finalize ap ls e) =
           (if replaying e \<or> changes txB = [] \<and> \<not> keepEmpty e then future e else [])"
proof -
  define e1 where "e1 = notify (BeforeUndoNotification (pendingChanges e)) (e\<lparr>finalizing := FiringBeforeUndo\<rparr>)"
  define e2 where "e2 = dispatch ap (beforeUndoListeners ls) e1"
  define pr where "pr = (if replaying e2 then (False, e2) else push txB e2)"
  define e3 where "e3 = snd pr"
  define stored where "stored = fst pr"
  define e4 where "e4 = notify (ChangeNotification (pendingChanges e3)) (e3\<lparr>finalizing := FiringChange stored\<rparr>)"
  define e5 where "e5 = dispatch ap (changeListeners ls) e4"
  have pend: "pendingChanges e = changes tx" using op by (simp add: pendingChanges_def)
  have fin1: "finalizing e1 \<noteq> NotFinalizing" and op1: "openTransaction e1 = Some tx"
    and t1: "documentTree e1 = t"
    by (simp_all add: e1_def op t_def)
  note d2 = dispatch_fields [OF fin1 op1, of ap "beforeUndoListeners ls", unfolded t1,
      folded e2_def LB_def, folded txB_def]
  have ho1: "headOpen e1" by (simp add: headOpen_def e1_def)
  from dispatch_past [OF fin1 ho1, of ap "beforeUndoListeners ls", folded e2_def]
  have past2: "past e2 = past e" by (simp add: e1_def)
  have op2: "openTransaction e2 = Some txB" using d2 by blast
  have fin_eq: "finalize ap ls e = notify EndUpdateNotification (e5\<lparr>finalizing := NotFinalizing, openTransaction := None\<rparr>)"
    unfolding finalize_def Let_def split_def e5_def e4_def e3_def stored_def pr_def
    by (simp add: e1_def [symmetric] e2_def [symmetric] op2)
  have k2: "keepEmpty e2 = keepEmpty e" "sizeBound e2 = sizeBound e"
    using d2 by (simp_all add: e1_def)
  have r2: "replaying e2 = replaying e"
    by (simp add: e2_def dispatch_replaying e1_def)
  have f2: "future e2 = future e"
    using d2 by (simp add: e1_def)
  have e3_fields: "documentTree e3 = snd (replay ap LB t)" "openTransaction e3 = Some txB"
    "nextSequenceNumber e3 = nextSequenceNumber e"
    "filter lifecycle (notifications e3)
       = filter lifecycle (notifications e) @ [BeforeUndoNotification (changes tx)]"
    "sizeBound e3 = sizeBound e" "keepEmpty e3 = keepEmpty e"
    using d2 by (simp_all add: e3_def pr_def push_def Let_def e1_def pend)
  have past3: "past e3 = (if replaying e \<or> changes txB = [] \<and> \<not> keepEmpty e then past e
                         else applyBound (sizeBound e) (txB # past e))"
    by (simp add: e3_def pr_def push_def Let_def k2 r2 past2)
  have future3: "future e3
                   = (if replaying e \<or> changes txB = [] \<and> \<not> keepEmpty e then future e else [])"
    by (simp add: e3_def pr_def push_def Let_def k2 r2 f2)
  have r3: "replaying e3 = replaying e"
    by (simp add: e3_def pr_def push_def Let_def r2)
  have stored: "stored = (\<not> (replaying e \<or> changes txB = [] \<and> \<not> keepEmpty e) \<and>
                          applyBound (sizeBound e) (txB # past e) \<noteq> [])"
    by (simp add: stored_def pr_def push_def Let_def k2 r2 past2)
  have fin4: "finalizing e4 \<noteq> NotFinalizing" and op4: "openTransaction e4 = Some txB"
    and t4: "documentTree e4 = snd (replay ap LB t)"
    by (simp_all add: e4_def e3_fields)
  note d5 = dispatch_fields [OF fin4 op4, of ap "changeListeners ls", unfolded t4,
      folded e5_def LC_def, folded txC_def]
  have ho4: "headOpen e4"
  proof (cases stored)
    case False
    then show ?thesis by (simp add: headOpen_def e4_def)
  next
    case True
    with stored have a: "\<not> (replaying e \<or> changes txB = [] \<and> \<not> keepEmpty e)"
      and b: "applyBound (sizeBound e) (txB # past e) \<noteq> []" by blast+
    from a past3 have "past e3 = applyBound (sizeBound e) (txB # past e)" by auto
    with applyBound_head [OF b]
    have "past e3 = txB # tl (applyBound (sizeBound e) (txB # past e))" by simp
    then show ?thesis by (simp add: headOpen_def e4_def e3_fields)
  qed
  from dispatch_past [OF fin4 ho4, of ap "changeListeners ls", folded e5_def]
  have past5: "past e5 = (if stored then txC # tl (past e3) else past e3)"
    using d5 by (simp add: e4_def)
  show "documentTree (finalize ap ls e) = snd (replay ap LC (snd (replay ap LB t)))"
    using d5 by (simp add: fin_eq)
  show "openTransaction (finalize ap ls e) = None" by (simp add: fin_eq)
  show "finalizing (finalize ap ls e) = NotFinalizing" by (simp add: fin_eq)
  show "nextSequenceNumber (finalize ap ls e) = nextSequenceNumber e"
    using d5 by (simp add: fin_eq e4_def e3_fields)
  show "filter lifecycle (notifications (finalize ap ls e))
           = filter lifecycle (notifications e) @
             [BeforeUndoNotification (changes tx), ChangeNotification (changes txB),
              EndUpdateNotification]"
    using d5 by (simp add: fin_eq e4_def e3_fields pendingChanges_def)
  show "past (finalize ap ls e) =
           (if replaying e \<or> changes txB = [] \<and> \<not> keepEmpty e then past e
            else if applyBound (sizeBound e) (txB # past e) = [] then []
            else txC # tl (applyBound (sizeBound e) (txB # past e)))"
    using past5 past3 stored by (auto simp: fin_eq)
  show "sizeBound (finalize ap ls e) = sizeBound e"
    using d5 by (simp add: fin_eq e4_def e3_fields)
  show "keepEmpty (finalize ap ls e) = keepEmpty e"
    using d5 by (simp add: fin_eq e4_def e3_fields)
  show "replaying (finalize ap ls e) = replaying e"
    by (simp add: fin_eq e5_def dispatch_replaying e4_def r3)
  show "future (finalize ap ls e) =
           (if replaying e \<or> changes txB = [] \<and> \<not> keepEmpty e then future e else [])"
    using d5 future3 by (simp add: fin_eq e4_def)
qed

lemma extends_refl [simp]: "extends e e"
  by (simp add: extends_def)

lemma extends_trans: "extends a b \<Longrightarrow> extends b c \<Longrightarrow> extends a c"
  by (auto simp: extends_def)

lemma extends_same: "notifications b = notifications a \<Longrightarrow> extends a b"
  by (simp add: extends_def)

lemma extends_notify: "notifications b = notifications a \<Longrightarrow> extends a (notify n b)"
  by (simp add: extends_def)

lemma extends_beginUpdate: "extends e (beginUpdate e)"
  by (simp add: beginUpdate_def extends_notify extends_same)

lemma extends_endNested: "extends e (endNested e)"
  by (simp add: endNested_def extends_notify)

lemma extends_recordChange: "extends e (recordChange ap c e)"
  by (simp add: extends_same recordChange_same)

lemma extends_reentrantCall: "extends e (reentrantCall ap cmd e)"
  by (cases cmd) (simp_all add: extends_beginUpdate extends_endNested extends_recordChange)

lemma extends_reentrantCalls: "extends e (reentrantCalls ap cmds e)"
proof (induction cmds arbitrary: e)
  case Nil
  show ?case by simp
next
  case (Cons cmd cmds)
  have "extends e (reentrantCalls ap cmds (reentrantCall ap cmd e))"
    by (rule extends_trans [OF extends_reentrantCall Cons.IH])
  then show ?case by simp
qed

lemma extends_dispatch: "extends e (dispatch ap ls e)"
proof (induction ls arbitrary: e)
  case Nil
  show ?case by simp
next
  case (Cons l ls)
  have "extends e (dispatch ap ls (reentrantCalls ap (l (pendingChanges e) (documentTree e)) e))"
    by (rule extends_trans [OF extends_reentrantCalls Cons.IH])
  then show ?case by simp
qed

lemma push_notifications: "notifications (snd (push tx e)) = notifications e"
  by (simp add: push_def Let_def)

lemma extends_after_notify: "extends a b \<Longrightarrow> extends a (notify n b)"
  by (auto simp: extends_def)

lemma extends_after_dispatch: "extends a b \<Longrightarrow> extends a (dispatch ap ls b)"
  by (rule extends_trans [OF _ extends_dispatch])

lemma extends_after_finalizing: "extends a b \<Longrightarrow> extends a (b\<lparr>finalizing := x\<rparr>)"
  by (simp add: extends_def)

lemma extends_after_close:
  "extends a b \<Longrightarrow> extends a (b\<lparr>finalizing := x, openTransaction := y\<rparr>)"
  by (simp add: extends_def)

lemma extends_after_push:
  "extends a b \<Longrightarrow>
     extends a (snd (case openTransaction b of None \<Rightarrow> (False, b)
                     | Some tx \<Rightarrow> if replaying b then (False, b) else push tx b))"
  by (simp add: extends_def push_notifications split: option.splits)

lemma extends_finalize: "extends e (finalize ap ls e)"
  unfolding finalize_def Let_def split_def
  by (intro extends_after_notify extends_after_close extends_after_dispatch
        extends_after_finalizing extends_after_push extends_refl)

lemma extends_filter:
  assumes "extends e e1"
    and "filter P (notifications e1) = filter P (notifications e) @ xs"
  shows "\<exists>ns. notifications e1 = notifications e @ ns \<and> filter P ns = xs"
proof -
  from assms(1) obtain ns where ns: "notifications e1 = notifications e @ ns"
    by (auto simp: extends_def)
  with assms(2) have "filter P ns = xs" by simp
  with ns show ?thesis by blast
qed

lemma replay_nil_iff: "fst (replay ap cs t) = [] \<longleftrightarrow> cs = []"
  using replay_length [of ap cs t] by (metis length_0_conv)

lemma body_state:
  fixes ap :: "'c \<Rightarrow> 't \<Rightarrow> 'c \<times> 't" and e0 :: "('c, 't) engine"
  assumes idle: "nesting e0 = 0" "finalizing e0 = NotFinalizing" and bal: "balanced 0 body"
  defines "eb \<equiv> reentrantCalls ap body (beginUpdate e0)"
  shows "engineCalls ap ls (BeginUpdate # body) e0 = eb"
    and "documentTree eb = snd (replay ap (executed body) (documentTree e0))"
    and "openTransaction eb
           = Some \<lparr>changes = fst (replay ap (executed body) (documentTree e0)),
                   sequenceNumber = nextSequenceNumber e0\<rparr>"
    and "finalizing eb = NotFinalizing"
    and "nextSequenceNumber eb = Suc (nextSequenceNumber e0)"
    and "nesting eb = 1"
    and "past eb = past e0"
    and "sizeBound eb = sizeBound e0"
    and "keepEmpty eb = keepEmpty e0"
    and "filter lifecycle (notifications eb)
           = filter lifecycle (notifications e0) @ [TransactionStarted]"
    and "replaying eb = replaying e0"
    and "future eb = future e0"
proof -
  let ?b = "beginUpdate e0"
  have b: "?b = notify TransactionStarted
             (e0\<lparr>nesting := 1,
                 openTransaction := Some \<lparr>changes = [], sequenceNumber = nextSequenceNumber e0\<rparr>,
                 nextSequenceNumber := Suc (nextSequenceNumber e0)\<rparr>)"
    using idle by (simp add: beginUpdate_def)
  have ins: "insideUpdate ?b body"
    using bal idle by (auto simp: insideUpdate_def b)
  note f = reentrantCalls_fields [OF ins, of ap, folded eb_def]
  have ho: "headOpen ?b" using idle by (simp add: headOpen_def b)
  note p = reentrantCalls_past [OF ins ho, of ap, folded eb_def]
  show "engineCalls ap ls (BeginUpdate # body) e0 = eb"
    using insideUpdate_calls [OF ins, of ap ls] by (simp add: eb_def)
  show "documentTree eb = snd (replay ap (executed body) (documentTree e0))"
    using f(1) by (simp add: b)
  show "openTransaction eb
           = Some \<lparr>changes = fst (replay ap (executed body) (documentTree e0)),
                   sequenceNumber = nextSequenceNumber e0\<rparr>"
    using f(2) by (simp add: b appendRecords_def)
  show "finalizing eb = NotFinalizing" using f(3) idle by (simp add: b)
  show "nextSequenceNumber eb = Suc (nextSequenceNumber e0)" using f(4) by (simp add: b)
  show "nesting eb = 1"
    using reentrantCalls_nesting [of ?b 0 body ap] bal idle by (simp add: b eb_def)
  show "past eb = past e0" using p idle by (simp add: b)
  show "sizeBound eb = sizeBound e0" using f(6) by (simp add: b)
  show "keepEmpty eb = keepEmpty e0" using f(7) by (simp add: b)
  show "filter lifecycle (notifications eb)
           = filter lifecycle (notifications e0) @ [TransactionStarted]"
    using f(8) by (simp add: b)
  show "replaying eb = replaying e0"
    by (simp add: eb_def reentrantCalls_replaying b)
  show "future eb = future e0" using f(5) by (simp add: b)
qed

lemma topLevel_state:
  fixes ap :: "'c \<Rightarrow> 't \<Rightarrow> 'c \<times> 't" and e0 :: "('c, 't) engine" and ls :: "('c, 't) listeners"
  assumes idle: "nesting e0 = 0" "finalizing e0 = NotFinalizing" and bal: "balanced 0 body"
  defines "t0 \<equiv> documentTree e0"
  defines "rB \<equiv> fst (replay ap (executed body) t0)"
  defines "tB \<equiv> snd (replay ap (executed body) t0)"
  defines "LB \<equiv> listenerChanges ap (beforeUndoListeners ls) rB tB"
  defines "LA \<equiv> listenerChanges ap (beforeUndoListeners ls @ changeListeners ls) rB tB"
  defines "e1 \<equiv> engineCalls ap ls (BeginUpdate # body @ [EndUpdate]) e0"
  shows "documentTree e1 = snd (replay ap (executed body @ LA) t0)"
    and "openTransaction e1 = None"
    and "finalizing e1 = NotFinalizing"
    and "nextSequenceNumber e1 = Suc (nextSequenceNumber e0)"
    and "filter lifecycle (notifications e1)
           = filter lifecycle (notifications e0) @
             [TransactionStarted, BeforeUndoNotification rB,
              ChangeNotification (fst (replay ap (executed body @ LB) t0)),
              EndUpdateNotification]"
    and "past e1 =
           (if replaying e0 \<or> executed body @ LB = [] \<and> \<not> keepEmpty e0 then past e0
            else if sizeBound e0 = Some 0 then []
            else \<lparr>changes = fst (replay ap (executed body @ LA) t0),
                   sequenceNumber = nextSequenceNumber e0\<rparr>
                 # applyBound (map_option (\<lambda>k. k - 1) (sizeBound e0)) (past e0))"
    and "extends e0 e1"
    and "replaying e1 = replaying e0"
    and "future e1 =
           (if replaying e0 \<or> executed body @ LB = [] \<and> \<not> keepEmpty e0 then future e0 else [])"
proof -
  define eb where "eb = reentrantCalls ap body (beginUpdate e0)"
  note b = body_state [OF idle bal, of ap, folded eb_def, folded t0_def, folded rB_def tB_def]
  define tx where "tx = \<lparr>changes = rB, sequenceNumber = nextSequenceNumber e0\<rparr>"
  have e1: "e1 = finalize ap ls (eb\<lparr>nesting := 0\<rparr>)"
  proof -
    have "e1 = engineCalls ap ls [EndUpdate] (engineCalls ap ls (BeginUpdate # body) e0)"
      unfolding e1_def using engineCalls_append [of ap ls "BeginUpdate # body" "[EndUpdate]" e0]
      by simp
    also have "\<dots> = endUpdate ap ls eb" using b(1) [of ls] by simp
    also have "\<dots> = finalize ap ls (eb\<lparr>nesting := 0\<rparr>)"
      by (simp add: endUpdate_def b(4) b(6))
    finally show ?thesis .
  qed
  have op: "openTransaction (eb\<lparr>nesting := 0\<rparr>) = Some tx" by (simp add: b(3) tx_def)
  have nf: "finalizing (eb\<lparr>nesting := 0\<rparr>) = NotFinalizing" by (simp add: b(4))
  note f = finalize_fields [OF op nf, of ap ls, folded e1]
  have ctx: "changes tx = rB" by (simp add: tx_def)
  have LA: "LA = LB @ listenerChanges ap (changeListeners ls) (rB @ fst (replay ap LB tB))
                       (snd (replay ap LB tB))"
    by (simp add: LA_def LB_def listenerChanges_append)
  show "documentTree e1 = snd (replay ap (executed body @ LA) t0)"
    using f(1) by (simp add: b(2) ctx LA LB_def replay_append_snd tB_def)
  show "openTransaction e1 = None" by (rule f(2))
  show "finalizing e1 = NotFinalizing" by (rule f(3))
  show "nextSequenceNumber e1 = Suc (nextSequenceNumber e0)" using f(4) by (simp add: b(5))
  show "filter lifecycle (notifications e1)
           = filter lifecycle (notifications e0) @
             [TransactionStarted, BeforeUndoNotification rB,
              ChangeNotification (fst (replay ap (executed body @ LB) t0)),
              EndUpdateNotification]"
    using f(5) by (simp add: b(2) b(10) ctx LB_def replay_append_fst rB_def tB_def)
  have tl_bound: "tl (applyBound bd (x # xs)) = applyBound (map_option (\<lambda>k. k - 1) bd) xs"
    for bd and x :: "'c Transaction" and xs
    by (cases bd) (auto simp: applyBound_def take_Cons split: nat.splits)
  have nil_bound: "applyBound bd (x # xs) = [] \<longleftrightarrow> bd = Some 0"
    for bd and x :: "'c Transaction" and xs
    by (cases bd) (auto simp: applyBound_def)
  have empty_iff: "rB @ fst (replay ap LB tB) = [] \<longleftrightarrow> executed body @ LB = []"
    by (simp add: rB_def replay_nil_iff)
  define rLB where "rLB = fst (replay ap LB tB)"
  define tLB where "tLB = snd (replay ap LB tB)"
  define LC where "LC = listenerChanges ap (changeListeners ls) (rB @ rLB) tLB"
  define rLC where "rLC = fst (replay ap LC tLB)"
  have eb0: "documentTree (eb\<lparr>nesting := 0\<rparr>) = tB" "past (eb\<lparr>nesting := 0\<rparr>) = past e0"
    "sizeBound (eb\<lparr>nesting := 0\<rparr>) = sizeBound e0" "keepEmpty (eb\<lparr>nesting := 0\<rparr>) = keepEmpty e0"
    "replaying (eb\<lparr>nesting := 0\<rparr>) = replaying e0" "future (eb\<lparr>nesting := 0\<rparr>) = future e0"
    by (simp_all add: b(2) b(7) b(8) b(9) b(11) b(12))
  note pastF = f(6) [unfolded eb0 ctx changes_appendRecords, folded LB_def, folded rLB_def tLB_def,
      unfolded ctx, folded LC_def, folded rLC_def]
  have all: "fst (replay ap (executed body @ LA) t0) = rB @ rLB @ rLC"
    by (simp add: LA replay_append_fst replay_append_snd rB_def [symmetric] tB_def [symmetric]
          rLB_def [symmetric] tLB_def [symmetric] LC_def [symmetric] rLC_def [symmetric])
  have txF: "appendRecords rLC (appendRecords rLB tx)
               = \<lparr>changes = rB @ rLB @ rLC, sequenceNumber = nextSequenceNumber e0\<rparr>"
    by (simp add: appendRecords_def tx_def)
  have empty_iff2: "rB @ rLB = [] \<longleftrightarrow> executed body @ LB = []"
    by (simp add: rB_def rLB_def replay_nil_iff)
  show "past e1 =
           (if replaying e0 \<or> executed body @ LB = [] \<and> \<not> keepEmpty e0 then past e0
            else if sizeBound e0 = Some 0 then []
            else \<lparr>changes = fst (replay ap (executed body @ LA) t0),
                   sequenceNumber = nextSequenceNumber e0\<rparr>
                 # applyBound (map_option (\<lambda>k. k - 1) (sizeBound e0)) (past e0))"
    unfolding pastF all txF tl_bound nil_bound empty_iff2 by simp
  show "replaying e1 = replaying e0" using f(9) by (simp add: eb0)
  note futureF = f(10) [unfolded eb0 ctx changes_appendRecords, folded LB_def, folded rLB_def]
  show "future e1 =
           (if replaying e0 \<or> executed body @ LB = [] \<and> \<not> keepEmpty e0 then future e0 else [])"
    unfolding futureF empty_iff2 by simp
  have "extends e0 (beginUpdate e0)" by (rule extends_beginUpdate)
  moreover have "extends (beginUpdate e0) eb" unfolding eb_def by (rule extends_reentrantCalls)
  moreover have "extends eb (eb\<lparr>nesting := 0\<rparr>)" by (simp add: extends_def)
  moreover have "extends (eb\<lparr>nesting := 0\<rparr>) e1" unfolding e1 by (rule extends_finalize)
  ultimately show "extends e0 e1" by (blast intro: extends_trans)
qed








lemma example_idle:
  "nesting exampleEngine = 0" "finalizing exampleEngine = NotFinalizing"
  "documentTree exampleEngine = exampleModel" "notifications exampleEngine = []"
  "nextSequenceNumber exampleEngine = 0" "past exampleEngine = []"
  "sizeBound exampleEngine = None" "keepEmpty exampleEngine = False"
  by (simp_all add: exampleEngine_def)

lemma example_body: "balanced 0 exampleBody"
  "executed exampleBody
     = [\<lparr>cell = 1, style = [(''fillColor'', ''blue'')], previous = [(''fillColor'', ''blue'')]\<rparr>]"
  by (simp_all add: exampleBody_def)

lemma example_body_replay:
  "fst (replay execute (executed exampleBody) exampleModel)
     = [\<lparr>cell = 1, style = [(''fillColor'', ''blue'')], previous = [(''fillColor'', ''red'')]\<rparr>]"
  "cellStyle (snd (replay execute (executed exampleBody) exampleModel)) 2 = [(''fillColor'', ''red'')]"
  by (simp_all add: example_body execute_def styleForCellChanged_def exampleModel_def)

lemma example_listener_changes:
  "listenerChanges execute [layoutListener]
     (fst (replay execute (executed exampleBody) exampleModel))
     (snd (replay execute (executed exampleBody) exampleModel))
   = [\<lparr>cell = 2, style = [(''width'', ''10'')], previous = [(''width'', ''10'')]\<rparr>]"
  by (simp add: example_body_replay(1) layoutListener_def)

lemma example_listener_replay:
  "fst (replay execute
         [\<lparr>cell = 2, style = [(''width'', ''10'')], previous = [(''width'', ''10'')]\<rparr>]
         (snd (replay execute (executed exampleBody) exampleModel)))
   = [\<lparr>cell = 2, style = [(''width'', ''10'')], previous = [(''fillColor'', ''red'')]\<rparr>]"
  using example_body_replay(2)
  by (simp add: execute_def styleForCellChanged_def del: replay.simps(2) add: replay_Cons_fst)

text \<open>
  Claim C4. From an idle engine, a call pattern that opens with \<^verbatim>\<open>beginUpdate\<close>, closes
  with the matching \<^verbatim>\<open>endUpdate\<close> and is balanced in between, however deeply nested (the
  counts of \<^verbatim>\<open>beginUpdate\<close> and \<^verbatim>\<open>endUpdate\<close> meet at top level at its end and not
  before), finalizes exactly one transaction: among the notifications it adds there is exactly one
  ``transaction started'', one ``before-undo'', one ``change'' and one ``end-update'', in
  this order; one sequence number is used; and the ``change'' notification carries the
  records of all changes of the pattern in the order executed, followed by the records
  that listeners of ``before-undo'' added.
\<close>

theorem nested_updates_one_transaction:
  fixes ap :: "'c \<Rightarrow> 't \<Rightarrow> 'c \<times> 't" and e0 :: "('c, 't) engine" and ls :: "('c, 't) listeners"
  assumes "nesting e0 = 0" and "finalizing e0 = NotFinalizing" and "balanced 0 body"
  shows "(\<exists>ns. notifications (engineCalls ap ls (BeginUpdate # body @ [EndUpdate]) e0)
                = notifications e0 @ ns \<and>
              filter lifecycle ns =
                [TransactionStarted,
                 BeforeUndoNotification (fst (replay ap (executed body) (documentTree e0))),
                 ChangeNotification
                   (fst (replay ap (executed body) (documentTree e0)) @
                    fst (replay ap
                          (listenerChanges ap (beforeUndoListeners ls)
                             (fst (replay ap (executed body) (documentTree e0)))
                             (snd (replay ap (executed body) (documentTree e0))))
                          (snd (replay ap (executed body) (documentTree e0))))),
                 EndUpdateNotification]) \<and>
         nextSequenceNumber (engineCalls ap ls (BeginUpdate # body @ [EndUpdate]) e0)
           = Suc (nextSequenceNumber e0) \<and>
         openTransaction (engineCalls ap ls (BeginUpdate # body @ [EndUpdate]) e0) = None \<and>
         finalizing (engineCalls ap ls (BeginUpdate # body @ [EndUpdate]) e0) = NotFinalizing"
proof -
  note t = topLevel_state [OF assms, of ap ls]
  from extends_filter [OF t(7) t(5)]
  have "\<exists>ns. notifications (engineCalls ap ls (BeginUpdate # body @ [EndUpdate]) e0)
                = notifications e0 @ ns \<and>
              filter lifecycle ns =
                [TransactionStarted,
                 BeforeUndoNotification (fst (replay ap (executed body) (documentTree e0))),
                 ChangeNotification
                   (fst (replay ap (executed body) (documentTree e0)) @
                    fst (replay ap
                          (listenerChanges ap (beforeUndoListeners ls)
                             (fst (replay ap (executed body) (documentTree e0)))
                             (snd (replay ap (executed body) (documentTree e0))))
                          (snd (replay ap (executed body) (documentTree e0))))),
                 EndUpdateNotification]"
    by (simp add: replay_append_fst)
  with t(4) t(2) t(3) show ?thesis by blast
qed

theorem nested_updates_one_transaction_witness:
  "nesting exampleEngine = 0 \<and> finalizing exampleEngine = NotFinalizing \<and>
   balanced 0 exampleBody \<and>
   filter lifecycle
     (notifications (engineCalls execute exampleListeners
        (BeginUpdate # exampleBody @ [EndUpdate]) exampleEngine))
     = [TransactionStarted,
        BeforeUndoNotification
          [\<lparr>cell = 1, style = [(''fillColor'', ''blue'')], previous = [(''fillColor'', ''red'')]\<rparr>],
        ChangeNotification
          [\<lparr>cell = 1, style = [(''fillColor'', ''blue'')], previous = [(''fillColor'', ''red'')]\<rparr>,
           \<lparr>cell = 2, style = [(''width'', ''10'')], previous = [(''fillColor'', ''red'')]\<rparr>],
        EndUpdateNotification] \<and>
   nextSequenceNumber (engineCalls execute exampleListeners
        (BeginUpdate # exampleBody @ [EndUpdate]) exampleEngine) = Suc 0"
proof -
  have bu: "beforeUndoListeners exampleListeners = [layoutListener]"
    by (simp add: exampleListeners_def)
  note w = nested_updates_one_transaction
    [OF example_idle(1,2) example_body(1), of execute exampleListeners,
     unfolded example_idle(3,4,5) bu append_Nil, unfolded example_listener_changes,
     unfolded example_listener_replay example_body_replay(1)]
  from w example_idle(1,2) example_body(1) show ?thesis by auto
qed





end
